theory Spec2Isabelle
  imports Main "HOL-Library.AList" "HOL-Library.Sublist"
begin

unbundle bit_operations_syntax

section \<open>Strings\<close>

text \<open>
  A Python \<^verbatim>\<open>str\<close> is a sequence of Unicode code points. HOL's \<open>char\<close> has eight
  bits only, so a character is modelled by its code point, a natural number, and a
  string by the list of its code points. \<open>lit\<close> turns a HOL string literal (ASCII) into
  such a list.
\<close>

type_synonym pystr = "nat list"

definition lit :: "string \<Rightarrow> pystr" where
  "lit s = map of_char s"

text \<open>
  \<^verbatim>\<open>str.isspace\<close> on one character, as CPython decides it: the code points whose
  general category is \<open>Zs\<close> or whose bidirectional class is \<open>WS\<close>, \<open>B\<close> or \<open>S\<close>.
\<close>

definition isspace :: "nat \<Rightarrow> bool" where
  "isspace c \<longleftrightarrow>
     (9 \<le> c \<and> c \<le> 13) \<or> (28 \<le> c \<and> c \<le> 32) \<or> c = 133 \<or> c = 160 \<or> c = 5760 \<or>
     (8192 \<le> c \<and> c \<le> 8202) \<or> c = 8232 \<or> c = 8233 \<or> c = 8239 \<or> c = 8287 \<or> c = 12288"

text \<open>\<^verbatim>\<open>s.strip()\<close>: whitespace is removed at both ends, never inside.\<close>

definition lstrip :: "pystr \<Rightarrow> pystr" where
  "lstrip s = dropWhile isspace s"

definition rstrip :: "pystr \<Rightarrow> pystr" where
  "rstrip s = rev (dropWhile isspace (rev s))"

definition strip :: "pystr \<Rightarrow> pystr" where
  "strip s = rstrip (lstrip s)"

text \<open>\<^verbatim>\<open>sub in s\<close> on strings: \<open>sub\<close> occurs in \<open>s\<close> as a contiguous run.\<close>

fun str_in :: "pystr \<Rightarrow> pystr \<Rightarrow> bool" where
  "str_in sub [] = (sub = [])"
| "str_in sub (c # cs) = (take (length sub) (c # cs) = sub \<or> str_in sub cs)"

section \<open>The name validator\<close>

text \<open>
  The exceptions that the library calls of the program raise. \<open>NameTooLong\<close> is the
  \<^verbatim>\<open>OSError\<close> with the error number \<^verbatim>\<open>ENAMETOOLONG\<close>.
\<close>

datatype oserror =
    FileExistsError | FileNotFoundError | NotADirectoryError | IsADirectoryError
  | CalledProcessError
  | NameTooLong | UnicodeDecodeError | UnicodeEncodeError

text \<open>
  The failures a request can end with: \<open>InvalidIdentifier\<close> is the
  \<^verbatim>\<open>ValueError\<close> of \<^verbatim>\<open>safe_name\<close> (answered with status 400, its message kept),
  \<open>AlreadyExists\<close> the status 409, \<open>NotFound\<close> the status 404, and
  \<open>ProvisioningFailure\<close> an exception that no handler of the request catches.
\<close>

datatype error =
    InvalidIdentifier pystr
  | AlreadyExists
  | NotFound
  | ProvisioningFailure oserror

definition allowed :: "nat set" where
  "allowed = set (lit ''abcdefghijklmnopqrstuvwxyzABCDEFGHIJKLMNOPQRSTUVWXYZ0123456789-_.'')"

definition safe_name :: "pystr \<Rightarrow> error + pystr" where
  "safe_name raw =
     (let s = strip raw in
      if s = [] then Inl (InvalidIdentifier (lit ''Empty name not allowed''))
      else if str_in (lit ''/'') s \<or> str_in (lit [CHR 0x5C]) s \<or> str_in (lit ''..'') s
        then Inl (InvalidIdentifier (lit ''Invalid name''))
      else if \<exists>ch \<in> set s. ch \<notin> allowed
        then Inl (InvalidIdentifier (lit ''Only letters, numbers, '-', '_', '.' are allowed''))
      else Inr s)"

text \<open>The validator fails, with whichever message.\<close>

definition invalid :: "error + pystr \<Rightarrow> bool" where
  "invalid r = (case r of Inl (InvalidIdentifier m) \<Rightarrow> True | _ \<Rightarrow> False)"

section \<open>Paths\<close>

text \<open>
  A \<^verbatim>\<open>pathlib\<close> path (POSIX flavour) is the list of its components below the root
  directory \<open>/\<close>, which is the empty list.
\<close>

type_synonym path = "pystr list"

text \<open>
  \<^verbatim>\<open>p / s\<close> for a segment \<open>s\<close> without a separator, the only kind the program joins
  (literals and validated names): \<^verbatim>\<open>pathlib\<close> drops an empty segment and the segment
  \<open>.\<close>, and keeps every other one as a new last component.
\<close>

definition pjoin :: "path \<Rightarrow> pystr \<Rightarrow> path" where
  "pjoin p s = (if s = [] \<or> s = lit ''.'' then p else p @ [s])"

text \<open>\<^verbatim>\<open>p.parent\<close> (the root is its own parent) and \<^verbatim>\<open>p.name\<close> (empty for the root).\<close>

definition parent :: "path \<Rightarrow> path" where
  "parent p = butlast p"

definition name_of :: "path \<Rightarrow> pystr" where
  "name_of p = (if p = [] then [] else last p)"

text \<open>
  \<^verbatim>\<open>p.stem\<close>: the name up to its last dot, when that dot is neither the first nor the
  last character; the whole name otherwise.
\<close>

definition stem :: "path \<Rightarrow> pystr" where
  "stem p =
     (let nm = name_of p; k = length (takeWhile (\<lambda>c. c \<noteq> 46) (rev nm)) in
      if k = length nm then nm
      else let i = length nm - 1 - k in
        if 0 < i \<and> i < length nm - 1 then take i nm else nm)"

text \<open>\<^verbatim>\<open>str(p)\<close>.\<close>

definition path_str :: "path \<Rightarrow> pystr" where
  "path_str p = (if p = [] then lit ''/'' else concat (map (\<lambda>c. lit ''/'' @ c) p))"

section \<open>The file system\<close>

text \<open>
  The state the program works on. A file holds its content, a sequence of bytes, and its
  permission bits; the permission bits of directories, ownership, symbolic links and
  disk space are not modelled, so the errors are those of a missing or ill-kinded path
  and, where a path is looked up for reading the push log, of a name that is too long.
  The file
  system is a list of entries, looked up by path; the root directory always exists.
  The order of the list stands for the order in which a directory scan delivers entries.
  Nothing forces the parent of an entry to be there as a directory: the operations test
  what the system calls test, and the properties below hold for every list.
\<close>

datatype node = Dir | File (content: pystr) (mode: int)

type_synonym fs = "(path \<times> node) list"

definition lookup :: "fs \<Rightarrow> path \<Rightarrow> node option" where
  "lookup fs p = (if p = [] then Some Dir else map_of fs p)"

text \<open>\<^verbatim>\<open>p.exists()\<close> and \<^verbatim>\<open>p.is_dir()\<close>.\<close>

definition path_exists :: "fs \<Rightarrow> path \<Rightarrow> bool" where
  "path_exists fs p = (lookup fs p \<noteq> None)"

definition is_dir :: "fs \<Rightarrow> path \<Rightarrow> bool" where
  "is_dir fs p = (lookup fs p = Some Dir)"

text \<open>\<^verbatim>\<open>os.mkdir(p)\<close>.\<close>

definition os_mkdir :: "fs \<Rightarrow> path \<Rightarrow> oserror + fs" where
  "os_mkdir fs p =
     (case lookup fs p of
        Some n \<Rightarrow> Inl FileExistsError
      | None \<Rightarrow>
          (case lookup fs (parent p) of
             None \<Rightarrow> Inl FileNotFoundError
           | Some (File c m) \<Rightarrow> Inl NotADirectoryError
           | Some Dir \<Rightarrow> Inr (AList.update p Dir fs)))"

text \<open>
  \<^verbatim>\<open>p.mkdir(parents=False, exist_ok=True)\<close>: a \<^verbatim>\<open>FileNotFoundError\<close> is raised again,
  any other error is dropped when \<open>p\<close> is a directory.
\<close>

definition mkdir_exist_ok :: "fs \<Rightarrow> path \<Rightarrow> oserror + fs" where
  "mkdir_exist_ok fs p =
     (case os_mkdir fs p of
        Inr fs' \<Rightarrow> Inr fs'
      | Inl e \<Rightarrow>
          if e = FileNotFoundError then Inl e
          else if is_dir fs p then Inr fs else Inl e)"

text \<open>
  \<^verbatim>\<open>p.mkdir(parents=True, exist_ok=True)\<close>, as \<^verbatim>\<open>pathlib\<close> writes it: when the parent
  is missing it is made first, in the same way, and \<open>p\<close> after it. A failure happens
  before anything is created, so on failure the state is the one before the call.
\<close>

function mkdir_parents :: "fs \<Rightarrow> path \<Rightarrow> oserror + fs" where
  "mkdir_parents fs p =
     (case os_mkdir fs p of
        Inr fs' \<Rightarrow> Inr fs'
      | Inl e \<Rightarrow>
          if e = FileNotFoundError then
            (if parent p = p then Inl e
             else (case mkdir_parents fs (parent p) of
                     Inl e' \<Rightarrow> Inl e'
                   | Inr fs' \<Rightarrow> mkdir_exist_ok fs' p))
          else if is_dir fs p then Inr fs else Inl e)"
  by pat_completeness auto
termination
proof (relation "measure (\<lambda>(fs, p). length p)")
  show "wf (measure (\<lambda>(fs, p). length p))" by simp
next
  fix fs :: fs and p :: path and e :: oserror
  assume "parent p \<noteq> p"
  then have "p \<noteq> []" by (auto simp: parent_def)
  then show "((fs, parent p), (fs, p)) \<in> measure (\<lambda>(fs, p). length p)"
    by (simp add: parent_def)
qed

declare mkdir_parents.simps [simp del]

text \<open>
  The codec \<^verbatim>\<open>utf-8\<close> with strict error handling, as Python has it. Encoding fails on
  a surrogate (and on a number that is no code point); decoding fails on a byte that
  cannot start a character, on a missing or wrong continuation byte, on an overlong
  form, on a surrogate and on a value above \<open>0x10FFFF\<close>.
\<close>

definition utf8_encode_char :: "nat \<Rightarrow> nat list option" where
  "utf8_encode_char c =
     (if c < 128 then Some [c]
      else if c < 2048 then Some [192 + c div 64, 128 + c mod 64]
      else if c < 65536 then
        (if 55296 \<le> c \<and> c \<le> 57343 then None
         else Some [224 + c div 4096, 128 + c div 64 mod 64, 128 + c mod 64])
      else if c < 1114112 then
        Some [240 + c div 262144, 128 + c div 4096 mod 64, 128 + c div 64 mod 64, 128 + c mod 64]
      else None)"

fun utf8_encode :: "pystr \<Rightarrow> nat list option" where
  "utf8_encode [] = Some []"
| "utf8_encode (c # cs) =
     (case utf8_encode_char c of
        None \<Rightarrow> None
      | Some b \<Rightarrow> (case utf8_encode cs of None \<Rightarrow> None | Some bs \<Rightarrow> Some (b @ bs)))"

definition continuation :: "nat \<Rightarrow> bool" where
  "continuation b \<longleftrightarrow> 128 \<le> b \<and> b < 192"

fun utf8_decode :: "nat list \<Rightarrow> pystr option" where
  "utf8_decode [] = Some []"
| "utf8_decode (b # bs) =
     (if b < 128 then map_option ((#) b) (utf8_decode bs)
      else if 192 \<le> b \<and> b < 224 then
        (case bs of
           b1 # r \<Rightarrow>
             let c = (b - 192) * 64 + (b1 - 128) in
             if continuation b1 \<and> 128 \<le> c then map_option ((#) c) (utf8_decode r) else None
         | _ \<Rightarrow> None)
      else if 224 \<le> b \<and> b < 240 then
        (case bs of
           b1 # b2 # r \<Rightarrow>
             let c = (b - 224) * 4096 + (b1 - 128) * 64 + (b2 - 128) in
             if continuation b1 \<and> continuation b2 \<and> 2048 \<le> c \<and> \<not> (55296 \<le> c \<and> c \<le> 57343)
             then map_option ((#) c) (utf8_decode r) else None
         | _ \<Rightarrow> None)
      else if 240 \<le> b \<and> b < 248 then
        (case bs of
           b1 # b2 # b3 # r \<Rightarrow>
             let c = (b - 240) * 262144 + (b1 - 128) * 4096 + (b2 - 128) * 64 + (b3 - 128) in
             if continuation b1 \<and> continuation b2 \<and> continuation b3 \<and> 65536 \<le> c \<and> c < 1114112
             then map_option ((#) c) (utf8_decode r) else None
         | _ \<Rightarrow> None)
      else None)"

text \<open>
  \<^verbatim>\<open>open(p, 'w')\<close>: an existing file is truncated and keeps its mode, a new file gets
  the mode \<open>0o666\<close> without the bits of the process's umask.
\<close>

definition open_w :: "int \<Rightarrow> fs \<Rightarrow> path \<Rightarrow> oserror + fs" where
  "open_w umask fs p =
     (case lookup fs p of
        Some Dir \<Rightarrow> Inl IsADirectoryError
      | Some (File c m) \<Rightarrow> Inr (AList.update p (File [] m) fs)
      | None \<Rightarrow>
          (case lookup fs (parent p) of
             None \<Rightarrow> Inl FileNotFoundError
           | Some (File c m) \<Rightarrow> Inl NotADirectoryError
           | Some Dir \<Rightarrow> Inr (AList.update p (File [] (438 AND NOT umask)) fs)))"

text \<open>Writing to the open file appends to what it holds.\<close>

definition write_data :: "fs \<Rightarrow> path \<Rightarrow> pystr \<Rightarrow> fs" where
  "write_data fs p d =
     (case lookup fs p of
        Some (File c m) \<Rightarrow> AList.update p (File (c @ d) m) fs
      | _ \<Rightarrow> fs)"

text \<open>
  \<^verbatim>\<open>p.write_text(d, encoding="utf-8")\<close>: open for writing, encode and write, close.
  The result is the error raised, if any, and the file system then: when the text
  cannot be encoded the file is there already, empty.
\<close>

definition write_text :: "int \<Rightarrow> fs \<Rightarrow> path \<Rightarrow> pystr \<Rightarrow> oserror option \<times> fs" where
  "write_text umask fs p d =
     (case open_w umask fs p of
        Inl e \<Rightarrow> (Some e, fs)
      | Inr fs' \<Rightarrow>
          (case utf8_encode d of
             None \<Rightarrow> (Some UnicodeEncodeError, fs')
           | Some b \<Rightarrow> (None, write_data fs' p b)))"

text \<open>\<^verbatim>\<open>os.chmod(p, m)\<close>.\<close>

definition chmod :: "fs \<Rightarrow> path \<Rightarrow> int \<Rightarrow> oserror + fs" where
  "chmod fs p m =
     (case lookup fs p of
        None \<Rightarrow> Inl FileNotFoundError
      | Some Dir \<Rightarrow> Inr fs
      | Some (File c m') \<Rightarrow> Inr (AList.update p (File c m) fs))"

text \<open>
  Reading in text mode translates line ends in the decoded text (Python's universal
  newlines, the default of \<^verbatim>\<open>open\<close>): a carriage return followed by a line feed,
  and a carriage return alone, are both read as one line feed.
\<close>

fun universal_newlines :: "pystr \<Rightarrow> pystr" where
  "universal_newlines [] = []"
| "universal_newlines [c] = [if c = 13 then 10 else c]"
| "universal_newlines (c # d # cs) =
     (if c = 13 \<and> d = 10 then 10 # universal_newlines cs
      else if c = 13 then 10 # universal_newlines (d # cs)
      else c # universal_newlines (d # cs))"

text \<open>
  \<^verbatim>\<open>p.read_text(encoding="utf-8")\<close>: the bytes of the file are decoded, which fails
  when they are not UTF-8, and the line ends of the text are translated.
\<close>

definition read_text :: "fs \<Rightarrow> path \<Rightarrow> oserror + pystr" where
  "read_text fs p =
     (case lookup fs p of
        None \<Rightarrow> Inl FileNotFoundError
      | Some Dir \<Rightarrow> Inl IsADirectoryError
      | Some (File c m) \<Rightarrow>
          (case utf8_decode c of
             None \<Rightarrow> Inl UnicodeDecodeError
           | Some t \<Rightarrow> Inr (universal_newlines t)))"

text \<open>
  The limits of the file system on names (those of Linux): a component of a path has at
  most \<open>NAME_MAX\<close> bytes, and a path fewer than \<open>PATH_MAX\<close> bytes.
\<close>

definition NAME_MAX :: nat where
  "NAME_MAX = 255"

definition PATH_MAX :: nat where
  "PATH_MAX = 4096"

definition nbytes :: "pystr \<Rightarrow> nat" where
  "nbytes s = (case utf8_encode s of Some b \<Rightarrow> length b | None \<Rightarrow> length s)"

definition within_limits :: "path \<Rightarrow> bool" where
  "within_limits p \<longleftrightarrow> nbytes (path_str p) < PATH_MAX \<and> list_all (\<lambda>c. nbytes c \<le> NAME_MAX) p"

text \<open>
  The system call \<^verbatim>\<open>stat\<close> walks the path from the root, \<open>cur\<close> being the part
  walked so far. It answers \<^verbatim>\<open>ENAMETOOLONG\<close> when it comes, in a directory, to a
  component that is too long; where the walk ends before, at something missing or at a
  file, the answer is another one.
\<close>

fun name_too_long :: "fs \<Rightarrow> path \<Rightarrow> path \<Rightarrow> bool" where
  "name_too_long fs cur [] = False"
| "name_too_long fs cur (c # cs) =
     (lookup fs cur = Some Dir \<and> (NAME_MAX < nbytes c \<or> name_too_long fs (cur @ [c]) cs))"

text \<open>
  \<^verbatim>\<open>p.exists()\<close> with the one error of \<^verbatim>\<open>stat\<close> that a name alone can cause and
  that \<^verbatim>\<open>pathlib\<close> raises again instead of answering \<open>False\<close>.
\<close>

definition exists_call :: "fs \<Rightarrow> path \<Rightarrow> oserror + bool" where
  "exists_call fs p =
     (if PATH_MAX \<le> nbytes (path_str p) \<or> name_too_long fs [] p then Inl NameTooLong
      else Inr (path_exists fs p))"

text \<open>The owner may execute the file: bit \<open>0o100\<close> of its mode.\<close>

definition executable :: "int \<Rightarrow> bool" where
  "executable m = (m AND 64 \<noteq> 0)"

text \<open>
  \<^verbatim>\<open>root.rglob("*.git")\<close>: every entry below \<open>root\<close>, at any depth and of any kind,
  whose name ends in \<open>.git\<close>.
\<close>

definition rglob_git :: "fs \<Rightarrow> path \<Rightarrow> path list" where
  "rglob_git fs root =
     (if is_dir fs root
      then filter (\<lambda>p. strict_prefix root p \<and> suffix (lit ''.git'') (name_of p)) (map fst fs)
      else [])"

section \<open>The program\<close>

text \<open>
  What the program takes from its surroundings: the directory \<^verbatim>\<open>APP_ROOT\<close> it is
  installed in (line 7), the umask of its process, and the external version-control
  engine, \<^verbatim>\<open>git init --bare p\<close>, of which only the exit status (success or not) and
  the file system it leaves are seen.
\<close>

record env =
  app_root :: path
  umask :: int
  git_init_bare :: "path \<Rightarrow> fs \<Rightarrow> bool \<times> fs"

definition REPO_ROOT :: "env \<Rightarrow> path" where
  "REPO_ROOT env = pjoin (app_root env) (lit ''repos'')"

text \<open>Line 9, run when the module is loaded.\<close>

definition startup :: "env \<Rightarrow> fs \<Rightarrow> oserror + fs" where
  "startup env fs = mkdir_parents fs (REPO_ROOT env)"

text \<open>The text of the hook, line by line (lines 37 to 57).\<close>

definition hook_lines :: "string list" where
  \<open>hook_lines =
    [''#!/usr/bin/env bash'',
     ''set -euo pipefail'',
     '''',
     ''REPO_DIR="$(pwd)"'',
     ''LOG_FILE="$REPO_DIR/push.log"'',
     ''PUSHER="${PUSHER_NAME:-unknown}"'',
     '''',
     ''TS="$(date -u +"%Y-%m-%dT%H:%M:%SZ")"'',
     '''',
     ''{'',
     ''  echo "=== PUSH ==="'',
     ''  echo "time_utc=$TS"'',
     ''  echo "pusher=$PUSHER"'',
     ''  echo "repo=$REPO_DIR"'',
     ''  echo "updates:"'',
     ''  while read -r oldrev newrev refname; do'',
     ''    echo "  $refname $oldrev -> $newrev"'',
     ''  done'',
     ''  echo'',
     ''} >> "$LOG_FILE"'']\<close>

definition hook_content :: pystr where
  "hook_content = concat (map (\<lambda>l. lit l @ [10]) hook_lines)"

text \<open>
  \<^verbatim>\<open>write_post_receive_hook\<close> (lines 30 to 59). The result is the error raised, if
  any, and the file system at that moment.
\<close>

definition hook_path :: "path \<Rightarrow> path" where
  "hook_path repo_dir = pjoin (pjoin repo_dir (lit ''hooks'')) (lit ''post-receive'')"

definition write_post_receive_hook :: "env \<Rightarrow> path \<Rightarrow> fs \<Rightarrow> oserror option \<times> fs" where
  "write_post_receive_hook env repo_dir fs =
     (let hooks_dir = pjoin repo_dir (lit ''hooks'') in
      case mkdir_parents fs hooks_dir of
        Inl e \<Rightarrow> (Some e, fs)
      | Inr fs1 \<Rightarrow>
          let hook_path = pjoin hooks_dir (lit ''post-receive'') in
          case write_text (umask env) fs1 hook_path hook_content of
            (Some e, fs2) \<Rightarrow> (Some e, fs2)
          | (None, fs2) \<Rightarrow>
              (case chmod fs2 hook_path 493 of
                 Inl e \<Rightarrow> (Some e, fs2)
               | Inr fs3 \<Rightarrow> (None, fs3)))"

text \<open>
  The same function, system call by system call: the states of the file system that
  another process can see while \<^verbatim>\<open>write_post_receive_hook\<close> runs, from the state
  before the call to the state it ends in. \<^verbatim>\<open>write_text\<close> opens the file (creating or
  truncating it) and then writes the encoded text; \<^verbatim>\<open>os.chmod\<close> comes after the file
  is closed.
\<close>

definition write_post_receive_hook_states :: "env \<Rightarrow> path \<Rightarrow> fs \<Rightarrow> fs list" where
  "write_post_receive_hook_states env repo_dir fs =
     (let hooks_dir = pjoin repo_dir (lit ''hooks'') in
      case mkdir_parents fs hooks_dir of
        Inl e \<Rightarrow> [fs]
      | Inr fs1 \<Rightarrow>
          let hook_path = pjoin hooks_dir (lit ''post-receive'') in
          case open_w (umask env) fs1 hook_path of
            Inl e \<Rightarrow> [fs, fs1]
          | Inr fs1' \<Rightarrow>
              (case utf8_encode hook_content of
                 None \<Rightarrow> [fs, fs1, fs1']
               | Some b \<Rightarrow>
                   let fs2 = write_data fs1' hook_path b in
                   (case chmod fs2 hook_path 493 of
                      Inl e \<Rightarrow> [fs, fs1, fs1', fs2]
                    | Inr fs3 \<Rightarrow> [fs, fs1, fs1', fs2, fs3])))"

text \<open>
  The answer of \<^verbatim>\<open>POST /repos\<close> and each item of \<^verbatim>\<open>GET /repos\<close>, with the keys
  \<^verbatim>\<open>org\<close>, \<^verbatim>\<open>name\<close>, \<^verbatim>\<open>path\<close> and \<^verbatim>\<open>clone_url_file\<close>.
\<close>

record repo_info =
  info_org :: pystr
  info_name :: pystr
  info_path :: pystr
  info_clone_url_file :: pystr

definition repo_path :: "env \<Rightarrow> pystr \<Rightarrow> pystr \<Rightarrow> path" where
  "repo_path env org name = pjoin (pjoin (REPO_ROOT env) org) (name @ lit ''.git'')"

text \<open>
  \<^verbatim>\<open>create_repo\<close> (lines 61 to 86), on the two fields of the request body. The
  result is the answer or the failure, and the file system the call leaves.
\<close>

definition create_repo :: "env \<Rightarrow> pystr \<Rightarrow> pystr \<Rightarrow> fs \<Rightarrow> (error + repo_info) \<times> fs" where
  "create_repo env body_org body_name fs =
     (case safe_name body_org of
        Inl e \<Rightarrow> (Inl e, fs)
      | Inr org \<Rightarrow>
     (case safe_name body_name of
        Inl e \<Rightarrow> (Inl e, fs)
      | Inr name \<Rightarrow>
          let repo_dir = repo_path env org name in
          if path_exists fs repo_dir then (Inl AlreadyExists, fs)
          else
            (case mkdir_parents fs (parent repo_dir) of
               Inl e \<Rightarrow> (Inl (ProvisioningFailure e), fs)
             | Inr fs1 \<Rightarrow>
                 (case git_init_bare env repo_dir fs1 of
                    (False, fs2) \<Rightarrow> (Inl (ProvisioningFailure CalledProcessError), fs2)
                  | (True, fs2) \<Rightarrow>
                      (case write_post_receive_hook env repo_dir fs2 of
                         (Some e, fs3) \<Rightarrow> (Inl (ProvisioningFailure e), fs3)
                       | (None, fs3) \<Rightarrow>
                           (Inr \<lparr>info_org = org, info_name = name, info_path = path_str repo_dir,
                                 info_clone_url_file = lit ''file://'' @ path_str repo_dir\<rparr>,
                            fs3))))))"

text \<open>\<^verbatim>\<open>list_repos\<close> (lines 88 to 101).\<close>

definition list_repos :: "env \<Rightarrow> fs \<Rightarrow> repo_info list" where
  "list_repos env fs =
     map (\<lambda>p. \<lparr>info_org = name_of (parent p), info_name = stem p, info_path = path_str p,
               info_clone_url_file = lit ''file://'' @ path_str p\<rparr>)
       (rglob_git fs (REPO_ROOT env))"

text \<open>The answer of \<^verbatim>\<open>GET /repos/{org}/{name}/pushlog\<close>, with the keys \<^verbatim>\<open>org\<close>,
  \<^verbatim>\<open>name\<close>, \<^verbatim>\<open>pushes\<close> and, in one case only, \<^verbatim>\<open>note\<close>.\<close>

record push_log =
  log_org :: pystr
  log_name :: pystr
  log_pushes :: pystr
  log_note :: "pystr option"

text \<open>
  \<^verbatim>\<open>get_push_log\<close> (lines 103 to 119). An exception of \<^verbatim>\<open>exists\<close> or of
  \<^verbatim>\<open>read_text\<close> is caught by no handler and ends the request as a server error.
\<close>

definition get_push_log :: "env \<Rightarrow> pystr \<Rightarrow> pystr \<Rightarrow> fs \<Rightarrow> error + push_log" where
  "get_push_log env org_raw name_raw fs =
     (case safe_name org_raw of
        Inl e \<Rightarrow> Inl e
      | Inr org \<Rightarrow>
     (case safe_name name_raw of
        Inl e \<Rightarrow> Inl e
      | Inr name \<Rightarrow>
          let repo_dir = repo_path env org name in
          (case exists_call fs repo_dir of
             Inl e \<Rightarrow> Inl (ProvisioningFailure e)
           | Inr False \<Rightarrow> Inl NotFound
           | Inr True \<Rightarrow>
               let log_path = pjoin repo_dir (lit ''push.log'') in
               (case exists_call fs log_path of
                  Inl e \<Rightarrow> Inl (ProvisioningFailure e)
                | Inr False \<Rightarrow>
                    Inr \<lparr>log_org = org, log_name = name, log_pushes = [],
                         log_note = Some (lit ''No pushes logged yet'')\<rparr>
                | Inr True \<Rightarrow>
                    (case read_text fs log_path of
                       Inl e \<Rightarrow> Inl (ProvisioningFailure e)
                     | Inr t \<Rightarrow>
                         Inr \<lparr>log_org = org, log_name = name, log_pushes = t,
                              log_note = None\<rparr>)))))"

section \<open>The external engine\<close>

text \<open>
  The version-control engine is not part of the program. Two things are said about it
  here, from its documentation. First, what it accepts as a bare repository: a directory
  with a \<^verbatim>\<open>HEAD\<close> file, an \<^verbatim>\<open>objects\<close> directory and a \<^verbatim>\<open>refs\<close> directory.
\<close>

definition is_file :: "fs \<Rightarrow> path \<Rightarrow> bool" where
  "is_file fs p = (case lookup fs p of Some (File c m) \<Rightarrow> True | _ \<Rightarrow> False)"

definition is_bare_repo :: "fs \<Rightarrow> path \<Rightarrow> bool" where
  "is_bare_repo fs p \<longleftrightarrow>
     is_dir fs p \<and> is_file fs (p @ [lit ''HEAD''])
     \<and> is_dir fs (p @ [lit ''objects'']) \<and> is_dir fs (p @ [lit ''refs''])"

text \<open>
  The contract of \<^verbatim>\<open>git init --bare\<close> that the program relies on: the engine reports
  success only when it leaves what it accepts as a bare repository.
\<close>

definition engine_ok :: "(path \<Rightarrow> fs \<Rightarrow> bool \<times> fs) \<Rightarrow> bool" where
  "engine_ok git \<longleftrightarrow> (\<forall>p fs fs'. git p fs = (True, fs') \<longrightarrow> is_bare_repo fs' p)"

text \<open>
  Second, a model of \<^verbatim>\<open>git init --bare p\<close>, for the concrete scenarios: it makes the
  directory and the directories above it, then adds each entry of the skeleton of a bare
  repository that is not there yet (run on an existing repository it overwrites nothing
  and succeeds); it fails when the directory cannot be made or when what results is not
  a bare repository.
\<close>

definition bare_skeleton :: "(path \<times> node) list" where
  "bare_skeleton =
    [([lit ''HEAD''], File (lit ''ref: refs/heads/master'' @ [10]) 420),
     ([lit ''config''], File (lit ''[core]'' @ [10, 9] @ lit ''bare = true'' @ [10]) 420),
     ([lit ''description''], File (lit ''Unnamed repository'' @ [10]) 420),
     ([lit ''hooks''], Dir),
     ([lit ''info''], Dir),
     ([lit ''objects''], Dir),
     ([lit ''objects'', lit ''info''], Dir),
     ([lit ''objects'', lit ''pack''], Dir),
     ([lit ''refs''], Dir),
     ([lit ''refs'', lit ''heads''], Dir),
     ([lit ''refs'', lit ''tags''], Dir)]"

definition add_missing :: "path \<Rightarrow> path \<times> node \<Rightarrow> fs \<Rightarrow> fs" where
  "add_missing p e fs =
     (if lookup fs (p @ fst e) = None then AList.update (p @ fst e) (snd e) fs else fs)"

definition git_model :: "path \<Rightarrow> fs \<Rightarrow> bool \<times> fs" where
  "git_model p fs =
     (case mkdir_parents fs p of
        Inl e \<Rightarrow> (False, fs)
      | Inr fs1 \<Rightarrow>
          let fs2 = fold (add_missing p) bare_skeleton fs1 in
          if is_bare_repo fs2 p then (True, fs2) else (False, fs2))"

section \<open>The installed hook\<close>

text \<open>
  The hook is a shell script; what it does when the engine runs it is modelled from its
  text (\<open>hook_lines\<close>). It reads three things from its surroundings: the variable
  \<^verbatim>\<open>PUSHER_NAME\<close>, which may be unset, the working directory that \<^verbatim>\<open>pwd\<close> prints,
  and the time that \<^verbatim>\<open>date\<close> prints. Strings are sequences of bytes here, and the
  log file is the sequence of bytes that the hook has written. Only a run in which every
  command succeeds is modelled.
\<close>

record hook_env =
  pusher_name :: "pystr option"
  cwd :: pystr
  now :: pystr

text \<open>The characters of the shell's default \<^verbatim>\<open>IFS\<close>: space, tab and newline.\<close>

definition ifs :: "nat \<Rightarrow> bool" where
  "ifs c \<longleftrightarrow> c = 32 \<or> c = 9 \<or> c = 10"

text \<open>
  \<^verbatim>\<open>read\<close> takes one line off the standard input. It succeeds when the line ends in
  a newline; at the end of the input, also after an unfinished line, it fails. The shell
  drops the NUL bytes of the line.
\<close>

definition read_line :: "pystr \<Rightarrow> (pystr \<times> pystr) option" where
  "read_line inp =
     (if 10 \<in> set inp
      then Some (filter (\<lambda>c. c \<noteq> 0) (takeWhile (\<lambda>c. c \<noteq> 10) inp),
                 tl (dropWhile (\<lambda>c. c \<noteq> 10) inp))
      else None)"

text \<open>
  \<^verbatim>\<open>read -r oldrev newrev refname\<close> splits the line at \<^verbatim>\<open>IFS\<close> whitespace: the first
  word, the second word, and the rest of the line without the whitespace around it.
\<close>

definition split3 :: "pystr \<Rightarrow> pystr \<times> pystr \<times> pystr" where
  "split3 l =
     (let l1 = dropWhile ifs l;
          oldrev = takeWhile (\<lambda>c. \<not> ifs c) l1;
          l2 = dropWhile ifs (dropWhile (\<lambda>c. \<not> ifs c) l1);
          newrev = takeWhile (\<lambda>c. \<not> ifs c) l2;
          l3 = dropWhile ifs (dropWhile (\<lambda>c. \<not> ifs c) l2);
          refname = rev (dropWhile ifs (rev l3))
      in (oldrev, newrev, refname))"

text \<open>\<^verbatim>\<open>echo\<close> writes its argument and a newline.\<close>

definition echo :: "pystr \<Rightarrow> pystr" where
  "echo s = s @ [10]"

text \<open>The argument of \<^verbatim>\<open>echo "  $refname $oldrev -> $newrev"\<close>.\<close>

definition update_line :: "pystr \<times> pystr \<times> pystr \<Rightarrow> pystr" where
  "update_line t =
     (case t of (oldrev, newrev, refname) \<Rightarrow>
        lit ''  '' @ refname @ lit '' '' @ oldrev @ lit '' -> '' @ newrev)"

text \<open>The \<^verbatim>\<open>while read\<close> loop: what it writes, for the standard input \<open>inp\<close>.\<close>

function hook_loop :: "pystr \<Rightarrow> pystr" where
  "hook_loop inp =
     (case read_line inp of
        None \<Rightarrow> []
      | Some (l, rest) \<Rightarrow> echo (update_line (split3 l)) @ hook_loop rest)"
  by pat_completeness auto
termination
proof (relation "measure length")
  show "wf (measure length)" by simp
next
  fix inp :: pystr and x l rest
  assume "read_line inp = Some x" and "(l, rest) = x"
  then have r: "rest = tl (dropWhile (\<lambda>c. c \<noteq> 10) inp)" and i: "10 \<in> set inp"
    by (auto simp: read_line_def split: if_splits)
  from i have "dropWhile (\<lambda>c. c \<noteq> 10) inp \<noteq> []"
    by (simp add: dropWhile_eq_Nil_conv)
  then have "length rest < length (dropWhile (\<lambda>c. c \<noteq> 10) inp)"
    using r by simp
  also have "\<dots> \<le> length inp"
    by (rule length_dropWhile_le)
  finally show "(rest, inp) \<in> measure length" by simp
qed

declare hook_loop.simps [simp del]

text \<open>
  \<^verbatim>\<open>${PUSHER_NAME:-unknown}\<close> is \<open>unknown\<close> when the variable is unset or empty.
\<close>

definition pusher :: "hook_env \<Rightarrow> pystr" where
  "pusher he = (case pusher_name he of None \<Rightarrow> lit ''unknown''
                | Some p \<Rightarrow> if p = [] then lit ''unknown'' else p)"

text \<open>
  One run of the hook on the standard input \<open>inp\<close>: the new content of the log file
  \<^verbatim>\<open>push.log\<close>, from its old content (empty when the file was not there). The
  commands between the braces write one after the other, and \<^verbatim>\<open>>>\<close> appends what they
  write to the file.
\<close>

definition post_receive :: "hook_env \<Rightarrow> pystr \<Rightarrow> pystr \<Rightarrow> pystr" where
  "post_receive he inp log =
     log
     @ echo (lit ''=== PUSH ==='')
     @ echo (lit ''time_utc='' @ now he)
     @ echo (lit ''pusher='' @ pusher he)
     @ echo (lit ''repo='' @ cwd he)
     @ echo (lit ''updates:'')
     @ hook_loop inp
     @ echo []"

text \<open>
  What the engine writes to the hook's standard input for one ref update: the old
  revision, the new revision and the name of the ref, separated by one space and ended
  by a newline. Each of the three is a non-empty sequence of bytes without whitespace and
  without a NUL byte.
\<close>

definition stdin_line :: "pystr \<times> pystr \<times> pystr \<Rightarrow> pystr" where
  "stdin_line t = (case t of (oldrev, newrev, refname) \<Rightarrow>
     oldrev @ [32] @ newrev @ [32] @ refname @ [10])"

definition word :: "pystr \<Rightarrow> bool" where
  "word w \<longleftrightarrow> w \<noteq> [] \<and> list_all (\<lambda>c. c < 256 \<and> \<not> ifs c \<and> c \<noteq> 0) w"

definition ref_update :: "pystr \<times> pystr \<times> pystr \<Rightarrow> bool" where
  "ref_update t = (case t of (oldrev, newrev, refname) \<Rightarrow> word oldrev \<and> word newrev \<and> word refname)"

section \<open>Requests that overlap\<close>

text \<open>
  \<^verbatim>\<open>create_repo\<close> in the steps between which another request can run: the
  validation with the existence test (lines 63 to 71), the making of the parent
  directory (line 73), the engine (line 76), and the installation of the hook with the
  answer (lines 79 to 86). A request is at one of these points, or done with its answer.
\<close>

datatype pc =
    Start
  | Checked pystr pystr
  | ParentMade pystr pystr
  | Initialised pystr pystr
  | Done "error + repo_info"

fun create_step :: "env \<Rightarrow> pystr \<Rightarrow> pystr \<Rightarrow> pc \<Rightarrow> fs \<Rightarrow> pc \<times> fs" where
  "create_step env body_org body_name Start fs =
     (case safe_name body_org of
        Inl e \<Rightarrow> (Done (Inl e), fs)
      | Inr org \<Rightarrow>
     (case safe_name body_name of
        Inl e \<Rightarrow> (Done (Inl e), fs)
      | Inr name \<Rightarrow>
          if path_exists fs (repo_path env org name) then (Done (Inl AlreadyExists), fs)
          else (Checked org name, fs)))"
| "create_step env body_org body_name (Checked org name) fs =
     (case mkdir_parents fs (parent (repo_path env org name)) of
        Inl e \<Rightarrow> (Done (Inl (ProvisioningFailure e)), fs)
      | Inr fs1 \<Rightarrow> (ParentMade org name, fs1))"
| "create_step env body_org body_name (ParentMade org name) fs =
     (case git_init_bare env (repo_path env org name) fs of
        (False, fs2) \<Rightarrow> (Done (Inl (ProvisioningFailure CalledProcessError)), fs2)
      | (True, fs2) \<Rightarrow> (Initialised org name, fs2))"
| "create_step env body_org body_name (Initialised org name) fs =
     (case write_post_receive_hook env (repo_path env org name) fs of
        (Some e, fs3) \<Rightarrow> (Done (Inl (ProvisioningFailure e)), fs3)
      | (None, fs3) \<Rightarrow>
          (Done (Inr \<lparr>info_org = org, info_name = name,
                      info_path = path_str (repo_path env org name),
                      info_clone_url_file = lit ''file://'' @ path_str (repo_path env org name)\<rparr>),
           fs3))"
| "create_step env body_org body_name (Done r) fs = (Done r, fs)"

text \<open>
  Two requests for the same identifier on one file system. A schedule says which of the
  two takes the next step.
\<close>

datatype request = First | Second

record system =
  pc_A :: pc
  pc_B :: pc
  disk :: fs

definition step :: "env \<Rightarrow> pystr \<Rightarrow> pystr \<Rightarrow> request \<Rightarrow> system \<Rightarrow> system" where
  "step env body_org body_name r s =
     (case r of
        First \<Rightarrow> (case create_step env body_org body_name (pc_A s) (disk s) of
                (pc', fs') \<Rightarrow> s\<lparr>pc_A := pc', disk := fs'\<rparr>)
      | Second \<Rightarrow> (case create_step env body_org body_name (pc_B s) (disk s) of
                (pc', fs') \<Rightarrow> s\<lparr>pc_B := pc', disk := fs'\<rparr>))"

definition run :: "env \<Rightarrow> pystr \<Rightarrow> pystr \<Rightarrow> request list \<Rightarrow> fs \<Rightarrow> system" where
  "run env body_org body_name schedule fs =
     fold (step env body_org body_name) schedule \<lparr>pc_A = Start, pc_B = Start, disk = fs\<rparr>"

text \<open>The hook is absent, or present in full and executable.\<close>

definition hook_absent_or_ready :: "path \<Rightarrow> fs \<Rightarrow> bool" where
  "hook_absent_or_ready repo_dir fs =
     (case lookup fs (hook_path repo_dir) of
        None \<Rightarrow> True
      | Some Dir \<Rightarrow> False
      | Some (File c m) \<Rightarrow> c = hook_content \<and> executable m)"

section \<open>A concrete installation\<close>

text \<open>
  The scenarios are run with the program installed in \<^verbatim>\<open>/srv\<close>, the umask \<open>0o022\<close>
  and the model of the engine, on the file system that loading the module leaves when
  only \<^verbatim>\<open>/srv\<close> is there.
\<close>

definition env0 :: env where
  "env0 = \<lparr>app_root = [lit ''srv''], umask = 18, git_init_bare = git_model\<rparr>"

text \<open>The same installation with an engine that fails and touches nothing.\<close>

definition env_fail :: env where
  "env_fail = env0\<lparr>git_init_bare := (\<lambda>p fs. (False, fs))\<rparr>"

definition fs0 :: fs where
  "fs0 = (case startup env0 [([lit ''srv''], Dir)] of Inr fs \<Rightarrow> fs | Inl e \<Rightarrow> [])"

text \<open>
  A push to the repository \<open>("acme", "widgets")\<close> of that installation, by a pusher whose
  name, as the variable \<^verbatim>\<open>PUSHER_NAME\<close> holds it, ends in a carriage return, and the
  file system after it: the hook has written the log.
\<close>

definition he_cr :: hook_env where
  "he_cr = \<lparr>pusher_name = Some (lit ''bob'' @ [13]),
             cwd = lit ''/srv/repos/acme/widgets.git'',
             now = lit ''2024-01-01T00:00:00Z''\<rparr>"

definition fs_pushed :: fs where
  "fs_pushed =
     AList.update [lit ''srv'', lit ''repos'', lit ''acme'', lit ''widgets.git'', lit ''push.log'']
       (File (post_receive he_cr [] []) 420)
       (snd (create_repo env0 (lit ''acme'') (lit ''widgets'') fs0))"

text \<open>
  The file system of that installation at the moment \<^verbatim>\<open>create_repo\<close>, asked for
  \<open>("acme", "widgets")\<close>, calls \<^verbatim>\<open>write_post_receive_hook\<close> (line 79): the first of two
  requests has taken its first three steps.
\<close>

definition fs_before_hook :: fs where
  "fs_before_hook = disk (run env0 (lit ''acme'') (lit ''widgets'') [First, First, First] fs0)"

text \<open>
  The same push by a pusher whose name ends in the byte \<open>0xFF\<close>, which is not UTF-8.
\<close>

definition he_ff :: hook_env where
  "he_ff = \<lparr>pusher_name = Some (lit ''bob'' @ [255]),
             cwd = lit ''/srv/repos/acme/widgets.git'',
             now = lit ''2024-01-01T00:00:00Z''\<rparr>"

definition fs_pushed_ff :: fs where
  "fs_pushed_ff =
     AList.update [lit ''srv'', lit ''repos'', lit ''acme'', lit ''widgets.git'', lit ''push.log'']
       (File (post_receive he_ff [] []) 420)
       (snd (create_repo env0 (lit ''acme'') (lit ''widgets'') fs0))"

text \<open>A name of 252 letters, which the validator accepts: with \<open>.git\<close> it has 256 bytes.\<close>

definition long_name :: pystr where
  "long_name = replicate 252 97"

section \<open>Properties of strings\<close>

lemma str_in_sublist: "str_in sub s \<longleftrightarrow> sublist sub s"
proof (induction s)
  case Nil
  show ?case by simp
next
  case (Cons c cs)
  have "take (length sub) (c # cs) = sub \<longleftrightarrow> prefix sub (c # cs)"
    by (metis append_eq_conv_conj prefix_def take_is_prefix)
  with Cons show ?case
    by (simp add: sublist_Cons_right)
qed

lemma str_in_single: "str_in [c] s \<longleftrightarrow> c \<in> set s"
  by (induction s) auto

lemma str_in_dropWhile:
  assumes "sub \<noteq> []" and "\<forall>c\<in>set sub. \<not> P c"
  shows "str_in sub (dropWhile P s) \<longleftrightarrow> str_in sub s"
proof (induction s)
  case Nil
  show ?case by simp
next
  case (Cons c cs)
  show ?case
  proof (cases "P c")
    case True
    have "take (length sub) (c # cs) \<noteq> sub"
    proof
      assume e: "take (length sub) (c # cs) = sub"
      from assms(1) obtain x xs where s: "sub = x # xs" by (cases sub) auto
      with e have "x = c" by simp
      with s assms(2) True show False by simp
    qed
    with True Cons show ?thesis by simp
  next
    case False
    then show ?thesis by simp
  qed
qed

lemma str_in_rev: "str_in (rev sub) (rev s) \<longleftrightarrow> str_in sub s"
  by (simp add: str_in_sublist sublist_rev)

lemma str_in_strip:
  assumes "sub \<noteq> []" and "\<forall>c\<in>set sub. \<not> isspace c"
  shows "str_in sub (strip s) \<longleftrightarrow> str_in sub s"
proof -
  have r: "rev sub \<noteq> []" "\<forall>c\<in>set (rev sub). \<not> isspace c"
    using assms by simp_all
  have "str_in sub (strip s) \<longleftrightarrow> str_in (rev sub) (dropWhile isspace (rev (lstrip s)))"
    unfolding strip_def rstrip_def using str_in_rev [of sub "rev (dropWhile isspace (rev (lstrip s)))"]
    by simp
  also have "\<dots> \<longleftrightarrow> str_in (rev sub) (rev (lstrip s))"
    by (rule str_in_dropWhile [OF r])
  also have "\<dots> \<longleftrightarrow> str_in sub (lstrip s)"
    by (rule str_in_rev)
  also have "\<dots> \<longleftrightarrow> str_in sub s"
    unfolding lstrip_def by (rule str_in_dropWhile [OF assms])
  finally show ?thesis .
qed

lemma lit_slash: "lit ''/'' = [47]" by (simp add: lit_def)
lemma lit_backslash: "lit [CHR 0x5C] = [92]" by (simp add: lit_def)
lemma lit_dotdot: "lit ''..'' = [46, 46]" by (simp add: lit_def)

lemma allowed_iff:
  "c \<in> allowed \<longleftrightarrow>
     (97 \<le> c \<and> c \<le> 122) \<or> (65 \<le> c \<and> c \<le> 90) \<or> (48 \<le> c \<and> c \<le> 57) \<or> c = 45 \<or> c = 95 \<or> c = 46"
proof -
  have "c \<in> allowed \<longleftrightarrow> c \<in> set (lit ''abcdefghijklmnopqrstuvwxyz'')
      \<or> c \<in> set (lit ''ABCDEFGHIJKLMNOPQRSTUVWXYZ'') \<or> c \<in> set (lit ''0123456789'') \<or> c \<in> set (lit ''-_.'')"
    by (simp add: allowed_def lit_def)
  moreover have "c \<in> set (lit ''abcdefghijklmnopqrstuvwxyz'') \<longleftrightarrow> 97 \<le> c \<and> c \<le> 122"
    unfolding lit_def by simp presburger
  moreover have "c \<in> set (lit ''ABCDEFGHIJKLMNOPQRSTUVWXYZ'') \<longleftrightarrow> 65 \<le> c \<and> c \<le> 90"
    unfolding lit_def by simp presburger
  moreover have "c \<in> set (lit ''0123456789'') \<longleftrightarrow> 48 \<le> c \<and> c \<le> 57"
    unfolding lit_def by simp presburger
  moreover have "c \<in> set (lit ''-_.'') \<longleftrightarrow> c = 45 \<or> c = 95 \<or> c = 46"
    unfolding lit_def by simp
  ultimately show ?thesis by blast
qed

lemma allowed_not_space: "c \<in> allowed \<Longrightarrow> \<not> isspace c"
  unfolding allowed_iff isspace_def by presburger

lemma dropWhile_none: "\<forall>c\<in>set s. \<not> P c \<Longrightarrow> dropWhile P s = s"
  by (cases s) auto

lemma strip_id:
  assumes "\<forall>c\<in>set s. \<not> isspace c"
  shows "strip s = s"
proof -
  have "\<forall>c\<in>set (rev s). \<not> isspace c"
    using assms by simp
  then have "dropWhile isspace (rev s) = rev s"
    by (rule dropWhile_none)
  with dropWhile_none [OF assms] show ?thesis
    by (simp add: strip_def lstrip_def rstrip_def)
qed

lemma set_strip: "set (strip s) \<subseteq> set s"
  unfolding strip_def lstrip_def rstrip_def
  by (metis set_dropWhileD set_rev subsetI)

section \<open>Properties of the name validator\<close>

lemma safe_name_Inr:
  assumes "strip raw \<noteq> []" and "\<not> str_in [47] (strip raw)" and "\<not> str_in [92] (strip raw)"
    and "\<not> str_in [46, 46] (strip raw)" and "\<forall>ch\<in>set (strip raw). ch \<in> allowed"
  shows "safe_name raw = Inr (strip raw)"
  using assms by (simp add: safe_name_def Let_def lit_slash lit_backslash lit_dotdot)

lemma invalid_safe_name:
  "invalid (safe_name raw) \<longleftrightarrow>
     strip raw = [] \<or> str_in [47] (strip raw) \<or> str_in [92] (strip raw) \<or> str_in [46, 46] (strip raw)
       \<or> (\<exists>ch\<in>set (strip raw). ch \<notin> allowed)"
  by (simp add: safe_name_def Let_def invalid_def lit_slash lit_backslash lit_dotdot)

text \<open>
  Claim C1. For every raw input, \<open>safe_name\<close> fails with \<open>InvalidIdentifier\<close> exactly
  when the input is empty after trimming, or contains \<open>/\<close> or a backslash, or contains
  the sequence \<open>..\<close>, or has a character outside the allow-list; when it succeeds it
  returns the trimmed input, unchanged. The validator trims first and tests the trimmed
  string: for the separators and for \<open>..\<close> that is the same as testing the raw input
  (the theorem states them on the raw input), while the allow-list is stated on the
  trimmed input, the whitespace that trimming removes being outside the allow-list.
\<close>

theorem safe_name_spec:
  "(invalid (safe_name raw) \<longleftrightarrow>
      strip raw = [] \<or> str_in (lit ''/'') raw \<or> str_in (lit [CHR 0x5C]) raw \<or> str_in (lit ''..'') raw
        \<or> (\<exists>ch\<in>set (strip raw). ch \<notin> allowed))
   \<and> (\<not> invalid (safe_name raw) \<longrightarrow> safe_name raw = Inr (strip raw))"
proof -
  have "str_in [47] (strip raw) \<longleftrightarrow> str_in [47] raw"
    by (rule str_in_strip) (simp_all add: isspace_def)
  moreover have "str_in [92] (strip raw) \<longleftrightarrow> str_in [92] raw"
    by (rule str_in_strip) (simp_all add: isspace_def)
  moreover have "str_in [46, 46] (strip raw) \<longleftrightarrow> str_in [46, 46] raw"
    by (rule str_in_strip) (simp_all add: isspace_def)
  ultimately have "invalid (safe_name raw) \<longleftrightarrow>
      strip raw = [] \<or> str_in (lit ''/'') raw \<or> str_in (lit [CHR 0x5C]) raw \<or> str_in (lit ''..'') raw
        \<or> (\<exists>ch\<in>set (strip raw). ch \<notin> allowed)"
    by (simp add: invalid_safe_name lit_slash lit_backslash lit_dotdot)
  moreover have "\<not> invalid (safe_name raw) \<longrightarrow> safe_name raw = Inr (strip raw)"
    using safe_name_Inr [of raw] by (auto simp: invalid_safe_name)
  ultimately show ?thesis by blast
qed

lemma strip_acme: "strip (lit '' acme '') = lit ''acme''"
  by (simp add: strip_def lstrip_def rstrip_def lit_def isspace_def)

lemma acme_allowed: "set (lit ''acme'') \<subseteq> allowed"
  by (simp add: lit_def allowed_iff)

theorem safe_name_spec_witness:
  "\<not> invalid (safe_name (lit '' acme '')) \<and> safe_name (lit '' acme '') = Inr (lit ''acme'')"
proof -
  have "\<not> str_in (lit ''/'') (lit '' acme '')" "\<not> str_in (lit [CHR 0x5C]) (lit '' acme '')"
       "\<not> str_in (lit ''..'') (lit '' acme '')"
    by (simp_all add: lit_def)
  moreover have "\<not> (\<exists>ch\<in>set (strip (lit '' acme '')). ch \<notin> allowed)" "strip (lit '' acme '') \<noteq> []"
    using acme_allowed by (auto simp: strip_acme) (simp add: lit_def)
  ultimately show ?thesis
    using safe_name_spec [of "lit '' acme ''"] by (simp add: strip_acme)
qed

text \<open>An input padded with whitespace is accepted, as its trimmed form.\<close>

lemma safe_name_padded_example:
  "safe_name (lit '' acme '') = Inr (lit ''acme'') \<and> of_char CHR '' '' \<notin> allowed"
proof -
  have "safe_name (lit '' acme '') = Inr (strip (lit '' acme ''))"
    by (rule safe_name_Inr) (simp_all add: strip_acme, simp_all add: lit_def allowed_iff)
  then show ?thesis
    by (simp add: strip_acme allowed_iff)
qed

text \<open>
  Claim C8 as stated fails: the string \<open>..\<close> is not empty and consists of allow-listed
  characters only, and the validator rejects it (the guard against parent-directory
  sequences comes before the allow-list).
\<close>

theorem safe_name_dotdot_counterexample:
  "lit ''..'' \<noteq> [] \<and> set (lit ''..'') \<subseteq> allowed \<and> safe_name (lit ''..'') \<noteq> Inr (lit ''..'')"
proof -
  have "strip (lit ''..'') = [46, 46]"
    by (simp add: strip_def lstrip_def rstrip_def lit_def isspace_def)
  then have "invalid (safe_name (lit ''..''))"
    by (simp add: invalid_safe_name)
  then have "safe_name (lit ''..'') \<noteq> Inr (lit ''..'')"
    by (auto simp: invalid_def)
  then show ?thesis
    by (simp add: lit_dotdot allowed_iff)
qed

lemma safe_name_allowed:
  assumes "s \<noteq> []" and "set s \<subseteq> allowed" and "\<not> str_in (lit ''..'') s"
  shows "safe_name s = Inr s"
proof -
  have ns: "\<forall>c\<in>set s. \<not> isspace c"
    using assms(2) allowed_not_space by blast
  then have st: "strip s = s" by (rule strip_id)
  have "47 \<notin> allowed" "92 \<notin> allowed"
    by (simp_all add: allowed_iff)
  with assms(2) have "47 \<notin> set s" "92 \<notin> set s" by blast+
  then have "\<not> str_in [47] s" "\<not> str_in [92] s"
    by (simp_all add: str_in_single)
  with assms st safe_name_Inr [of s] show ?thesis
    by (auto simp: lit_dotdot)
qed

text \<open>
  Claim C8, amended. Every non-empty string of allow-listed characters that does not
  contain the sequence \<open>..\<close> is accepted and returned unchanged.
\<close>

theorem safe_name_accepts:
  assumes "s \<noteq> []" and "set s \<subseteq> allowed" and "\<not> str_in (lit ''..'') s"
  shows "safe_name s = Inr s"
  using assms by (rule safe_name_allowed)

theorem safe_name_accepts_witness:
  "lit ''acme'' \<noteq> [] \<and> set (lit ''acme'') \<subseteq> allowed \<and> \<not> str_in (lit ''..'') (lit ''acme'')
   \<and> safe_name (lit ''acme'') = Inr (lit ''acme'')"
proof -
  have a: "lit ''acme'' \<noteq> []" by (simp add: lit_def)
  have c: "\<not> str_in (lit ''..'') (lit ''acme'')" by (simp add: lit_def)
  show ?thesis
    using a acme_allowed c safe_name_accepts [OF a acme_allowed c] by simp
qed

section \<open>Properties of the file system\<close>

text \<open>
  Each operation changes the entry it is called on and nothing else; making a directory
  with its parents changes only what was missing on the way to it.
\<close>

lemma lookup_update:
  "lookup (AList.update k v fs) p = (if p = [] then Some Dir else if p = k then Some v else lookup fs p)"
  by (simp add: lookup_def update_conv')

lemma lookup_root [simp]: "lookup fs [] = Some Dir"
  by (simp add: lookup_def)

lemma os_mkdir_Inr:
  assumes "os_mkdir fs p = Inr fs'"
  shows "fs' = AList.update p Dir fs" and "lookup fs p = None" and "p \<noteq> []"
  using assms by (auto simp: os_mkdir_def split: option.splits node.splits)

lemma os_mkdir_frame:
  assumes "os_mkdir fs p = Inr fs'"
  shows "lookup fs' q = (if q = p then Some Dir else lookup fs q)"
  using os_mkdir_Inr [OF assms] by (auto simp: lookup_update)

lemma mkdir_exist_ok_frame:
  assumes "mkdir_exist_ok fs p = Inr fs'"
  shows "lookup fs' q = (if q = p then Some Dir else lookup fs q)"
proof (cases "os_mkdir fs p")
  case (Inl e)
  with assms have "fs' = fs" "is_dir fs p"
    by (auto simp: mkdir_exist_ok_def split: if_splits)
  then show ?thesis by (simp add: is_dir_def)
next
  case (Inr f)
  with assms have "fs' = f" by (simp add: mkdir_exist_ok_def)
  with Inr show ?thesis by (simp add: os_mkdir_frame)
qed

lemma mkdir_parents_frame:
  "mkdir_parents fs p = Inr fs' \<Longrightarrow>
     lookup fs' p = Some Dir \<and>
     (\<forall>q. lookup fs q \<noteq> None \<longrightarrow> lookup fs' q = lookup fs q) \<and>
     (\<forall>q. \<not> prefix q p \<longrightarrow> lookup fs' q = lookup fs q)"
proof (induction fs p arbitrary: fs' rule: mkdir_parents.induct)
  case (1 fs p)
  show ?case
  proof (cases "os_mkdir fs p")
    case (Inr f)
    with "1.prems" have "fs' = f" by (simp add: mkdir_parents.simps [of fs p])
    with Inr os_mkdir_frame [OF Inr] os_mkdir_Inr(2) [OF Inr] show ?thesis
      by auto
  next
    case (Inl e)
    show ?thesis
    proof (cases "e = FileNotFoundError")
      case False
      with Inl "1.prems" have "fs' = fs" "is_dir fs p"
        by (auto simp: mkdir_parents.simps [of fs p] split: if_splits)
      then show ?thesis by (simp add: is_dir_def)
    next
      case True
      with Inl "1.prems" obtain f where np: "parent p \<noteq> p"
        and f: "mkdir_parents fs (parent p) = Inr f" and fs': "mkdir_exist_ok f p = Inr fs'"
        by (auto simp: mkdir_parents.simps [of fs p] split: if_splits sum.splits)
      from "1.IH" [OF Inl True np f]
      have ih: "\<forall>q. lookup fs q \<noteq> None \<longrightarrow> lookup f q = lookup fs q"
        "\<forall>q. \<not> prefix q (parent p) \<longrightarrow> lookup f q = lookup fs q"
        by simp_all
      have fr: "\<And>q. lookup fs' q = (if q = p then Some Dir else lookup f q)"
        by (rule mkdir_exist_ok_frame [OF fs'])
      from Inl True have pn: "lookup fs p = None"
        by (auto simp: os_mkdir_def split: option.splits node.splits)
      have pp: "\<And>q. prefix q (parent p) \<Longrightarrow> prefix q p"
        unfolding parent_def by (metis prefix_order.trans prefixeq_butlast)
      have "lookup fs' p = Some Dir"
        using fr by simp
      moreover have "\<forall>q. lookup fs q \<noteq> None \<longrightarrow> lookup fs' q = lookup fs q"
        using fr ih(1) pn by auto
      moreover have "\<forall>q. \<not> prefix q p \<longrightarrow> lookup fs' q = lookup fs q"
      proof (intro allI impI)
        fix q assume q: "\<not> prefix q p"
        then have "q \<noteq> p" "\<not> prefix q (parent p)" using pp by auto
        with fr ih(2) show "lookup fs' q = lookup fs q" by simp
      qed
      ultimately show ?thesis by blast
    qed
  qed
qed

lemma open_w_frame:
  assumes "open_w u fs p = Inr fs'"
  shows "\<exists>m. lookup fs' p = Some (File [] m) \<and> (lookup fs p = None \<longrightarrow> m = 438 AND NOT u)
            \<and> (\<forall>c m'. lookup fs p = Some (File c m') \<longrightarrow> m = m')"
    and "q \<noteq> p \<Longrightarrow> lookup fs' q = lookup fs q"
  using assms
  by (auto simp: open_w_def lookup_update split: option.splits node.splits)

lemma write_text_frame:
  assumes "write_text u fs p d = (None, fs')" and "utf8_encode d = Some b"
  shows "\<exists>m. lookup fs' p = Some (File b m)" and "q \<noteq> p \<Longrightarrow> lookup fs' q = lookup fs q"
proof -
  from assms obtain f where f: "open_w u fs p = Inr f" and fs': "fs' = write_data f p b"
    by (auto simp: write_text_def split: sum.splits)
  from open_w_frame(1) [OF f] obtain m where m: "lookup f p = Some (File [] m)" by blast
  then have pne: "p \<noteq> []" by (auto simp: lookup_def split: if_splits)
  from m fs' have e: "fs' = AList.update p (File b m) f"
    by (simp add: write_data_def)
  with pne show "\<exists>m. lookup fs' p = Some (File b m)"
    by (auto simp: lookup_update)
  show "q \<noteq> p \<Longrightarrow> lookup fs' q = lookup fs q"
    using e open_w_frame(2) [OF f] by (simp add: lookup_update)
qed

text \<open>Text of ASCII characters is its own encoding, and the other way round.\<close>

lemma utf8_encode_ascii: "list_all (\<lambda>c. c < 128) s \<Longrightarrow> utf8_encode s = Some s"
  by (induction s) (simp_all add: utf8_encode_char_def)

lemma utf8_decode_ascii: "list_all (\<lambda>c. c < 128) b \<Longrightarrow> utf8_decode b = Some b"
  by (induction b) simp_all

lemma hook_content_ascii: "list_all (\<lambda>c. c < 128) hook_content"
  by (simp add: hook_content_def hook_lines_def lit_def)

lemma hook_content_utf8: "utf8_encode hook_content = Some hook_content"
  by (rule utf8_encode_ascii [OF hook_content_ascii])

lemma chmod_frame:
  assumes "chmod fs p m = Inr fs'" and "lookup fs p = Some (File c m')"
  shows "lookup fs' p = Some (File c m)" and "q \<noteq> p \<Longrightarrow> lookup fs' q = lookup fs q"
  using assms by (auto simp: chmod_def lookup_update split: option.splits node.splits if_splits)

section \<open>Creating a repository\<close>

lemmas fs_defs = os_mkdir_def mkdir_exist_ok_def mkdir_parents.simps open_w_def write_data_def
  write_text_def chmod_def lookup_def path_exists_def is_dir_def is_file_def parent_def pjoin_def
  name_of_def

lemma hook_path_eq: "hook_path rd = rd @ [lit ''hooks'', lit ''post-receive'']"
  by (simp add: hook_path_def pjoin_def lit_def)

lemma write_post_receive_hook_ok:
  assumes "write_post_receive_hook env rd fs = (None, fs')"
  shows "lookup fs' (hook_path rd) = Some (File hook_content 493)"
    and "lookup fs q \<noteq> None \<Longrightarrow> q \<noteq> hook_path rd \<Longrightarrow> lookup fs' q = lookup fs q"
proof -
  let ?hd = "pjoin rd (lit ''hooks'')"
  have hp: "pjoin ?hd (lit ''post-receive'') = hook_path rd"
    by (simp add: hook_path_def)
  from assms obtain fs1 fs2 where
    1: "mkdir_parents fs ?hd = Inr fs1" and
    2: "write_text (umask env) fs1 (hook_path rd) hook_content = (None, fs2)" and
    3: "chmod fs2 (hook_path rd) 493 = Inr fs'"
    by (auto simp: write_post_receive_hook_def Let_def hp split: sum.splits prod.splits option.splits)
  from write_text_frame(1) [OF 2 hook_content_utf8]
  obtain m where m: "lookup fs2 (hook_path rd) = Some (File hook_content m)"
    by blast
  show "lookup fs' (hook_path rd) = Some (File hook_content 493)"
    by (rule chmod_frame(1) [OF 3 m])
  assume q: "lookup fs q \<noteq> None" "q \<noteq> hook_path rd"
  have "lookup fs' q = lookup fs2 q"
    by (rule chmod_frame(2) [OF 3 m q(2)])
  also have "\<dots> = lookup fs1 q"
    by (rule write_text_frame(2) [OF 2 hook_content_utf8 q(2)])
  also have "\<dots> = lookup fs q"
    using mkdir_parents_frame [OF 1] q(1) by blast
  finally show "lookup fs' q = lookup fs q" .
qed

lemma is_bare_repo_hook:
  assumes "write_post_receive_hook env rd fs = (None, fs')" and "is_bare_repo fs rd"
  shows "is_bare_repo fs' rd"
proof -
  have ne: "rd \<noteq> hook_path rd" "rd @ [lit ''HEAD''] \<noteq> hook_path rd"
    "rd @ [lit ''objects''] \<noteq> hook_path rd" "rd @ [lit ''refs''] \<noteq> hook_path rd"
    by (simp_all add: hook_path_eq)
  have keep: "\<And>q. lookup fs q \<noteq> None \<Longrightarrow> q \<noteq> hook_path rd \<Longrightarrow> lookup fs' q = lookup fs q"
    by (rule write_post_receive_hook_ok(2) [OF assms(1)])
  from assms(2) have ex: "lookup fs rd \<noteq> None" "lookup fs (rd @ [lit ''HEAD'']) \<noteq> None"
    "lookup fs (rd @ [lit ''objects'']) \<noteq> None" "lookup fs (rd @ [lit ''refs'']) \<noteq> None"
    by (auto simp: is_bare_repo_def is_dir_def is_file_def split: option.splits)
  from keep [OF ex(1) ne(1)] keep [OF ex(2) ne(2)] keep [OF ex(3) ne(3)] keep [OF ex(4) ne(4)] assms(2)
  show ?thesis
    by (simp add: is_bare_repo_def is_dir_def is_file_def)
qed

lemma create_repo_Inr:
  assumes "create_repo env bo bn fs = (Inr d, fs')"
  shows "\<exists>org name fs1 fs2.
           safe_name bo = Inr org \<and> safe_name bn = Inr name
         \<and> \<not> path_exists fs (repo_path env org name)
         \<and> mkdir_parents fs (parent (repo_path env org name)) = Inr fs1
         \<and> git_init_bare env (repo_path env org name) fs1 = (True, fs2)
         \<and> write_post_receive_hook env (repo_path env org name) fs2 = (None, fs')
         \<and> d = \<lparr>info_org = org, info_name = name, info_path = path_str (repo_path env org name),
                  info_clone_url_file = lit ''file://'' @ path_str (repo_path env org name)\<rparr>"
  using assms
  by (auto simp: create_repo_def Let_def split: sum.splits if_splits prod.splits bool.splits option.splits)

lemma create_repo_invalid:
  "create_repo env bo bn fs = (Inl (InvalidIdentifier m), fs') \<Longrightarrow> fs' = fs"
  by (auto simp: create_repo_def Let_def split: sum.splits if_splits prod.splits bool.splits option.splits)

lemma create_repo_exists:
  "create_repo env bo bn fs = (Inl AlreadyExists, fs') \<Longrightarrow> fs' = fs"
  by (auto simp: create_repo_def safe_name_def Let_def split: sum.splits if_splits prod.splits bool.splits option.splits)

lemma create_repo_again:
  assumes "engine_ok (git_init_bare env)" and "create_repo env bo bn fs = (Inr d, fs1)"
  shows "create_repo env bo bn fs1 = (Inl AlreadyExists, fs1)"
proof -
  from create_repo_Inr [OF assms(2)] obtain org name f1 f2 where
    v: "safe_name bo = Inr org" "safe_name bn = Inr name" and
    g: "git_init_bare env (repo_path env org name) f1 = (True, f2)" and
    h: "write_post_receive_hook env (repo_path env org name) f2 = (None, fs1)"
    by blast
  from assms(1) g have "is_bare_repo f2 (repo_path env org name)"
    by (auto simp: engine_ok_def)
  then have "is_bare_repo fs1 (repo_path env org name)"
    by (rule is_bare_repo_hook [OF h])
  then have "path_exists fs1 (repo_path env org name)"
    by (simp add: is_bare_repo_def is_dir_def path_exists_def)
  with v show ?thesis
    by (simp add: create_repo_def)
qed

lemma engine_ok_git_model: "engine_ok git_model"
  by (auto simp: engine_ok_def git_model_def Let_def split: sum.splits if_splits)

lemma fs0_eq: "fs0 = [([lit ''srv''], Dir), ([lit ''srv'', lit ''repos''], Dir)]"
  by (simp add: fs0_def startup_def env0_def REPO_ROOT_def fs_defs lit_def)

lemmas run_defs = create_repo_def safe_name_def strip_def lstrip_def rstrip_def isspace_def allowed_iff
  repo_path_def REPO_ROOT_def env0_def fs_defs git_model_def bare_skeleton_def add_missing_def
  is_bare_repo_def write_post_receive_hook_def hook_content_utf8 path_str_def lit_def Let_def

lemma create_acme_widgets:
  "fst (create_repo env0 (lit ''acme'') (lit ''widgets'') fs0) =
     Inr \<lparr>info_org = lit ''acme'', info_name = lit ''widgets'',
          info_path = lit ''/srv/repos/acme/widgets.git'',
          info_clone_url_file = lit ''file:///srv/repos/acme/widgets.git''\<rparr>"
  unfolding fs0_eq by (simp add: run_defs)

lemma list_acme_widgets:
  "list_repos env0 (snd (create_repo env0 (lit ''acme'') (lit ''widgets'') fs0)) =
     [\<lparr>info_org = lit ''acme'', info_name = lit ''widgets'',
       info_path = lit ''/srv/repos/acme/widgets.git'',
       info_clone_url_file = lit ''file:///srv/repos/acme/widgets.git''\<rparr>]"
  unfolding fs0_eq by (simp add: run_defs list_repos_def rglob_git_def stem_def suffix_def)

lemma create_empty_name:
  "create_repo env0 [] (lit ''widgets'') fs0 = (Inl (InvalidIdentifier (lit ''Empty name not allowed'')), fs0)"
  by (simp add: create_repo_def safe_name_def strip_def lstrip_def rstrip_def)

text \<open>
  Claim C2. When \<^verbatim>\<open>create_repo\<close> fails with \<open>InvalidIdentifier\<close> or with
  \<open>AlreadyExists\<close>, the file system is exactly as before the call. After a call that
  succeeded, the same request again fails with \<open>AlreadyExists\<close> and changes nothing (the
  engine keeping its contract). In the concrete installation, creating
  \<open>("acme", "widgets")\<close> twice gives \<open>AlreadyExists\<close> the second time, and the listing
  then holds that one repository and nothing else.
\<close>

theorem create_repo_failure_leaves_disk:
  "(create_repo env bo bn fs = (Inl (InvalidIdentifier m), fs') \<longrightarrow> fs' = fs)
   \<and> (create_repo env bo bn fs = (Inl AlreadyExists, fs') \<longrightarrow> fs' = fs)
   \<and> (engine_ok (git_init_bare env) \<longrightarrow> create_repo env bo bn fs = (Inr d, fs1) \<longrightarrow>
        create_repo env bo bn fs1 = (Inl AlreadyExists, fs1))
   \<and> (\<exists>d fs1. create_repo env0 (lit ''acme'') (lit ''widgets'') fs0 = (Inr d, fs1)
        \<and> create_repo env0 (lit ''acme'') (lit ''widgets'') fs1 = (Inl AlreadyExists, fs1)
        \<and> list_repos env0 fs1 = [d])"
proof -
  let ?r = "create_repo env0 (lit ''acme'') (lit ''widgets'') fs0"
  obtain d where d: "fst ?r = Inr d" and l: "list_repos env0 (snd ?r) = [d]"
    using create_acme_widgets list_acme_widgets by simp
  have r: "?r = (Inr d, snd ?r)"
    using d by (simp add: prod_eq_iff)
  have e: "engine_ok (git_init_bare env0)"
    by (simp add: env0_def engine_ok_git_model)
  have "create_repo env0 (lit ''acme'') (lit ''widgets'') (snd ?r) = (Inl AlreadyExists, snd ?r)"
    by (rule create_repo_again [OF e r])
  with r l have "\<exists>d fs1. ?r = (Inr d, fs1)
        \<and> create_repo env0 (lit ''acme'') (lit ''widgets'') fs1 = (Inl AlreadyExists, fs1)
        \<and> list_repos env0 fs1 = [d]"
    by blast
  then show ?thesis
    using create_repo_invalid create_repo_exists create_repo_again by blast
qed

theorem create_repo_failure_leaves_disk_witness:
  "snd (create_repo env0 [] (lit ''widgets'') fs0) = fs0
   \<and> (let fs1 = snd (create_repo env0 (lit ''acme'') (lit ''widgets'') fs0) in
        create_repo env0 (lit ''acme'') (lit ''widgets'') fs1 = (Inl AlreadyExists, fs1)
        \<and> snd (create_repo env0 (lit ''acme'') (lit ''widgets'') fs1) = fs1)"
proof -
  let ?r = "create_repo env0 (lit ''acme'') (lit ''widgets'') fs0"
  let ?d = "\<lparr>info_org = lit ''acme'', info_name = lit ''widgets'',
          info_path = lit ''/srv/repos/acme/widgets.git'',
          info_clone_url_file = lit ''file:///srv/repos/acme/widgets.git''\<rparr>"
  have r: "?r = (Inr ?d, snd ?r)"
    using create_acme_widgets by (simp add: prod_eq_iff)
  have e: "engine_ok (git_init_bare env0)"
    by (simp add: env0_def engine_ok_git_model)
  note t = create_repo_failure_leaves_disk
  have 1: "snd (create_repo env0 [] (lit ''widgets'') fs0) = fs0"
    using t [of env0 "[]" "lit ''widgets''" fs0 "lit ''Empty name not allowed''" fs0] create_empty_name
    by simp
  have 2: "create_repo env0 (lit ''acme'') (lit ''widgets'') (snd ?r) = (Inl AlreadyExists, snd ?r)"
    using t [of env0 "lit ''acme''" "lit ''widgets''" fs0 _ _ ?d "snd ?r"] e r by blast
  have 3: "snd (create_repo env0 (lit ''acme'') (lit ''widgets'') (snd ?r)) = snd ?r"
    using t [of env0 "lit ''acme''" "lit ''widgets''" "snd ?r" _ "snd ?r"] 2 by simp
  from 1 2 3 show ?thesis by (simp add: Let_def)
qed

lemma executable_755: "executable 493"
  by (simp add: executable_def)

lemma create_repo_stops:
  assumes "safe_name bo = Inr org" and "safe_name bn = Inr name"
  shows "path_exists fs (repo_path env org name) \<Longrightarrow>
           create_repo env bo bn fs = (Inl AlreadyExists, fs)"
    and "\<not> path_exists fs (repo_path env org name) \<Longrightarrow>
         mkdir_parents fs (parent (repo_path env org name)) = Inl e \<Longrightarrow>
           create_repo env bo bn fs = (Inl (ProvisioningFailure e), fs)"
    and "\<not> path_exists fs (repo_path env org name) \<Longrightarrow>
         mkdir_parents fs (parent (repo_path env org name)) = Inr fs1 \<Longrightarrow>
         git_init_bare env (repo_path env org name) fs1 = (False, fs2) \<Longrightarrow>
           create_repo env bo bn fs = (Inl (ProvisioningFailure CalledProcessError), fs2)"
  using assms by (simp_all add: create_repo_def)

lemma create_repo_hook:
  assumes "engine_ok (git_init_bare env)" and "create_repo env bo bn fs = (Inr d, fs')"
  shows "\<exists>org name. safe_name bo = Inr org \<and> safe_name bn = Inr name
           \<and> info_org d = org \<and> info_name d = name
           \<and> lookup fs' (hook_path (repo_path env org name)) = Some (File hook_content 493)
           \<and> is_bare_repo fs' (repo_path env org name)"
proof -
  from create_repo_Inr [OF assms(2)] obtain org name f1 f2 where
    v: "safe_name bo = Inr org" "safe_name bn = Inr name" and
    g: "git_init_bare env (repo_path env org name) f1 = (True, f2)" and
    h: "write_post_receive_hook env (repo_path env org name) f2 = (None, fs')" and
    d: "d = \<lparr>info_org = org, info_name = name, info_path = path_str (repo_path env org name),
              info_clone_url_file = lit ''file://'' @ path_str (repo_path env org name)\<rparr>"
    by blast
  from assms(1) g have "is_bare_repo f2 (repo_path env org name)"
    by (auto simp: engine_ok_def)
  then have "is_bare_repo fs' (repo_path env org name)"
    by (rule is_bare_repo_hook [OF h])
  with v d write_post_receive_hook_ok(1) [OF h] show ?thesis
    by simp
qed

text \<open>
  Claim C3. Provisioning stops at the first failure: when the repository exists already,
  when its parent directory cannot be made, or when the engine fails, \<^verbatim>\<open>create_repo\<close>
  ends with that failure in the state the failing step left, so the hook is not installed.
  Whenever it returns a descriptor, the hook file is in the repository with the content
  of the hook and the mode \<open>0o755\<close>, which is executable, and the repository is a bare
  repository for the engine (the engine keeping its contract).
\<close>

theorem provision_short_circuit:
  assumes "engine_ok (git_init_bare env)"
  shows "(create_repo env bo bn fs = (Inr d, fs') \<longrightarrow>
           (\<exists>org name. safe_name bo = Inr org \<and> safe_name bn = Inr name
              \<and> info_org d = org \<and> info_name d = name
              \<and> lookup fs' (hook_path (repo_path env org name)) = Some (File hook_content 493)
              \<and> executable 493
              \<and> is_bare_repo fs' (repo_path env org name)))
       \<and> (\<forall>org name. safe_name bo = Inr org \<longrightarrow> safe_name bn = Inr name \<longrightarrow>
            (path_exists fs (repo_path env org name) \<longrightarrow>
               create_repo env bo bn fs = (Inl AlreadyExists, fs))
          \<and> (\<not> path_exists fs (repo_path env org name) \<longrightarrow>
               (\<forall>e. mkdir_parents fs (parent (repo_path env org name)) = Inl e \<longrightarrow>
                  create_repo env bo bn fs = (Inl (ProvisioningFailure e), fs))
             \<and> (\<forall>fs1 fs2. mkdir_parents fs (parent (repo_path env org name)) = Inr fs1 \<longrightarrow>
                  git_init_bare env (repo_path env org name) fs1 = (False, fs2) \<longrightarrow>
                  create_repo env bo bn fs = (Inl (ProvisioningFailure CalledProcessError), fs2))))"
proof (intro conjI impI allI)
  assume "create_repo env bo bn fs = (Inr d, fs')"
  from create_repo_hook [OF assms this] executable_755
  show "\<exists>org name. safe_name bo = Inr org \<and> safe_name bn = Inr name
              \<and> info_org d = org \<and> info_name d = name
              \<and> lookup fs' (hook_path (repo_path env org name)) = Some (File hook_content 493)
              \<and> executable 493
              \<and> is_bare_repo fs' (repo_path env org name)"
    by blast
next
  fix org name
  assume "safe_name bo = Inr org" "safe_name bn = Inr name" "path_exists fs (repo_path env org name)"
  then show "create_repo env bo bn fs = (Inl AlreadyExists, fs)"
    by (rule create_repo_stops(1))
next
  fix org name e
  assume "safe_name bo = Inr org" "safe_name bn = Inr name" "\<not> path_exists fs (repo_path env org name)"
    "mkdir_parents fs (parent (repo_path env org name)) = Inl e"
  then show "create_repo env bo bn fs = (Inl (ProvisioningFailure e), fs)"
    by (rule create_repo_stops(2))
next
  fix org name fs1 fs2
  assume "safe_name bo = Inr org" "safe_name bn = Inr name" "\<not> path_exists fs (repo_path env org name)"
    "mkdir_parents fs (parent (repo_path env org name)) = Inr fs1"
    "git_init_bare env (repo_path env org name) fs1 = (False, fs2)"
  then show "create_repo env bo bn fs = (Inl (ProvisioningFailure CalledProcessError), fs2)"
    by (rule create_repo_stops(3))
qed

lemma safe_acme: "safe_name (lit ''acme'') = Inr (lit ''acme'')"
  by (rule safe_name_allowed) (simp_all add: acme_allowed, simp_all add: lit_def)

lemma safe_widgets: "safe_name (lit ''widgets'') = Inr (lit ''widgets'')"
  by (rule safe_name_allowed) (simp_all add: lit_def allowed_iff)

lemma acme_widgets_path:
  "repo_path env0 (lit ''acme'') (lit ''widgets'') = [lit ''srv'', lit ''repos'', lit ''acme'', lit ''widgets.git'']"
  "repo_path env_fail (lit ''acme'') (lit ''widgets'') = [lit ''srv'', lit ''repos'', lit ''acme'', lit ''widgets.git'']"
  by (simp_all add: repo_path_def REPO_ROOT_def env0_def env_fail_def pjoin_def lit_def)

lemma acme_widgets_bare:
  "is_bare_repo (snd (create_repo env0 (lit ''acme'') (lit ''widgets'') fs0))
     [lit ''srv'', lit ''repos'', lit ''acme'', lit ''widgets.git'']"
proof -
  let ?r = "create_repo env0 (lit ''acme'') (lit ''widgets'') fs0"
  have "\<exists>d. ?r = (Inr d, snd ?r)"
    using create_acme_widgets by (simp add: prod_eq_iff)
  then obtain d where r: "?r = (Inr d, snd ?r)" ..
  have e: "engine_ok (git_init_bare env0)"
    by (simp add: env0_def engine_ok_git_model)
  from create_repo_hook [OF e r] show ?thesis
    by (simp add: safe_acme safe_widgets acme_widgets_path)
qed

theorem provision_short_circuit_witness:
  "engine_ok (git_init_bare env0) \<and> engine_ok (git_init_bare env_fail)
   \<and> (let r = create_repo env0 (lit ''acme'') (lit ''widgets'') fs0;
           rd = [lit ''srv'', lit ''repos'', lit ''acme'', lit ''widgets.git''] in
        lookup (snd r) (hook_path rd) = Some (File hook_content 493) \<and> is_bare_repo (snd r) rd)
   \<and> (let r = create_repo env_fail (lit ''acme'') (lit ''widgets'') fs0;
           rd = [lit ''srv'', lit ''repos'', lit ''acme'', lit ''widgets.git''] in
        r = (Inl (ProvisioningFailure CalledProcessError), fs0 @ [([lit ''srv'', lit ''repos'', lit ''acme''], Dir)])
        \<and> lookup (snd r) (hook_path rd) = None)"
proof -
  let ?r = "create_repo env0 (lit ''acme'') (lit ''widgets'') fs0"
  let ?rd = "[lit ''srv'', lit ''repos'', lit ''acme'', lit ''widgets.git'']"
  let ?d = "\<lparr>info_org = lit ''acme'', info_name = lit ''widgets'',
          info_path = lit ''/srv/repos/acme/widgets.git'',
          info_clone_url_file = lit ''file:///srv/repos/acme/widgets.git''\<rparr>"
  let ?f1 = "fs0 @ [([lit ''srv'', lit ''repos'', lit ''acme''], Dir)]"
  have r: "?r = (Inr ?d, snd ?r)"
    using create_acme_widgets by (simp add: prod_eq_iff)
  have e: "engine_ok (git_init_bare env0)"
    by (simp add: env0_def engine_ok_git_model)
  have ef: "engine_ok (git_init_bare env_fail)"
    by (simp add: env_fail_def engine_ok_def)
  have 1: "lookup (snd ?r) (hook_path ?rd) = Some (File hook_content 493) \<and> is_bare_repo (snd ?r) ?rd"
    using provision_short_circuit [OF e, of "lit ''acme''" "lit ''widgets''" fs0 ?d "snd ?r"] r
    by (simp add: safe_acme safe_widgets acme_widgets_path)
  have ne: "\<not> path_exists fs0 ?rd"
    unfolding fs0_eq by (simp add: fs_defs lit_def)
  have mk: "mkdir_parents fs0 (parent ?rd) = Inr ?f1"
    unfolding fs0_eq by (simp add: fs_defs lit_def)
  have g: "git_init_bare env_fail ?rd ?f1 = (False, ?f1)"
    by (simp add: env_fail_def)
  have 2: "create_repo env_fail (lit ''acme'') (lit ''widgets'') fs0 =
      (Inl (ProvisioningFailure CalledProcessError), ?f1)"
    using provision_short_circuit [OF ef, of "lit ''acme''" "lit ''widgets''" fs0] ne mk g
    by (simp add: safe_acme safe_widgets acme_widgets_path)
  have 3: "lookup ?f1 (hook_path ?rd) = None"
    unfolding fs0_eq by (simp add: hook_path_eq lookup_def lit_def)
  from e ef 1 2 3 show ?thesis
    by (simp add: Let_def)
qed

section \<open>Storage paths and the listing\<close>

lemma safe_name_nonempty: "safe_name raw = Inr s \<Longrightarrow> s \<noteq> []"
  by (auto simp: safe_name_def Let_def split: if_splits)

lemma git_suffix_join: "pjoin p (name @ lit ''.git'') = p @ [name @ lit ''.git'']"
proof -
  have "length (name @ lit ''.git'') \<ge> 4" by (simp add: lit_def)
  then have "name @ lit ''.git'' \<noteq> []" "name @ lit ''.git'' \<noteq> lit ''.''"
    by (auto simp: lit_def)
  then show ?thesis by (simp add: pjoin_def)
qed

text \<open>
  For an organization other than \<open>.\<close>, the storage path has the two levels of the
  convention; \<^verbatim>\<open>create_repo\<close> and \<^verbatim>\<open>get_push_log\<close> compute it by the same expression
  (\<open>repo_path\<close>).
\<close>

lemma repo_path_two_levels:
  assumes "safe_name org_raw = Inr org" and "org \<noteq> lit ''.''"
  shows "repo_path env org name = REPO_ROOT env @ [org, name @ lit ''.git'']"
  using assms safe_name_nonempty [OF assms(1)]
  by (simp add: repo_path_def git_suffix_join) (simp add: pjoin_def)

lemma safe_dot: "safe_name (lit ''.'') = Inr (lit ''.'')"
  by (rule safe_name_allowed) (simp_all add: lit_def allowed_iff)

lemma safe_x: "safe_name (lit ''x'') = Inr (lit ''x'')"
  by (rule safe_name_allowed) (simp_all add: lit_def allowed_iff)

text \<open>
  Claim C4, at the input where the code departs from it. The validator accepts the
  organization \<open>.\<close>; \<^verbatim>\<open>pathlib\<close> drops that segment, so the repository \<open>(".", "x")\<close> is
  stored at \<^verbatim>\<open>/srv/repos/x.git\<close>, one level below the root and not at
  \<^verbatim>\<open><root>/<organization>/<name>.git\<close>; the listing then reports it under the
  organization \<open>repos\<close>, the name of the storage root.
\<close>

theorem dot_organization_one_level:
  "safe_name (lit ''.'') = Inr (lit ''.'') \<and> safe_name (lit ''x'') = Inr (lit ''x'')
   \<and> repo_path env0 (lit ''.'') (lit ''x'') = REPO_ROOT env0 @ [lit ''x.git'']
   \<and> repo_path env0 (lit ''.'') (lit ''x'') \<noteq> REPO_ROOT env0 @ [lit ''.'', lit ''x.git'']
   \<and> fst (create_repo env0 (lit ''.'') (lit ''x'') fs0) =
         Inr \<lparr>info_org = lit ''.'', info_name = lit ''x'', info_path = lit ''/srv/repos/x.git'',
              info_clone_url_file = lit ''file:///srv/repos/x.git''\<rparr>
   \<and> list_repos env0 (snd (create_repo env0 (lit ''.'') (lit ''x'') fs0)) =
         [\<lparr>info_org = lit ''repos'', info_name = lit ''x'', info_path = lit ''/srv/repos/x.git'',
           info_clone_url_file = lit ''file:///srv/repos/x.git''\<rparr>]"
proof -
  have p: "repo_path env0 (lit ''.'') (lit ''x'') = REPO_ROOT env0 @ [lit ''x.git'']"
    by (simp add: repo_path_def pjoin_def lit_def)
  have "fst (create_repo env0 (lit ''.'') (lit ''x'') fs0) =
         Inr \<lparr>info_org = lit ''.'', info_name = lit ''x'', info_path = lit ''/srv/repos/x.git'',
              info_clone_url_file = lit ''file:///srv/repos/x.git''\<rparr>"
    unfolding fs0_eq by (simp add: run_defs)
  moreover have "list_repos env0 (snd (create_repo env0 (lit ''.'') (lit ''x'') fs0)) =
         [\<lparr>info_org = lit ''repos'', info_name = lit ''x'', info_path = lit ''/srv/repos/x.git'',
           info_clone_url_file = lit ''file:///srv/repos/x.git''\<rparr>]"
    unfolding fs0_eq by (simp add: run_defs list_repos_def rglob_git_def stem_def suffix_def)
  ultimately show ?thesis
    using safe_dot safe_x p by simp
qed

text \<open>
  Claim C7, at an input where the code departs from it. \<^verbatim>\<open>rglob\<close> matches at every
  depth: after the one request that creates \<open>("x.git", "b")\<close>, the listing has two items,
  the repository and, before it, the organization directory \<^verbatim>\<open>/srv/repos/x.git\<close>, which
  is one level below the root and no repository, under the organization \<open>repos\<close>.
\<close>

theorem list_repos_any_depth:
  "fst (create_repo env0 (lit ''x.git'') (lit ''b'') fs0) =
     Inr \<lparr>info_org = lit ''x.git'', info_name = lit ''b'', info_path = lit ''/srv/repos/x.git/b.git'',
          info_clone_url_file = lit ''file:///srv/repos/x.git/b.git''\<rparr>
   \<and> list_repos env0 (snd (create_repo env0 (lit ''x.git'') (lit ''b'') fs0)) =
       [\<lparr>info_org = lit ''repos'', info_name = lit ''x'', info_path = lit ''/srv/repos/x.git'',
          info_clone_url_file = lit ''file:///srv/repos/x.git''\<rparr>,
        \<lparr>info_org = lit ''x.git'', info_name = lit ''b'', info_path = lit ''/srv/repos/x.git/b.git'',
          info_clone_url_file = lit ''file:///srv/repos/x.git/b.git''\<rparr>]
   \<and> \<not> is_bare_repo (snd (create_repo env0 (lit ''x.git'') (lit ''b'') fs0))
         [lit ''srv'', lit ''repos'', lit ''x.git'']"
proof -
  have "fst (create_repo env0 (lit ''x.git'') (lit ''b'') fs0) =
     Inr \<lparr>info_org = lit ''x.git'', info_name = lit ''b'', info_path = lit ''/srv/repos/x.git/b.git'',
          info_clone_url_file = lit ''file:///srv/repos/x.git/b.git''\<rparr>"
    unfolding fs0_eq by (simp add: run_defs)
  moreover have "list_repos env0 (snd (create_repo env0 (lit ''x.git'') (lit ''b'') fs0)) =
       [\<lparr>info_org = lit ''repos'', info_name = lit ''x'', info_path = lit ''/srv/repos/x.git'',
          info_clone_url_file = lit ''file:///srv/repos/x.git''\<rparr>,
        \<lparr>info_org = lit ''x.git'', info_name = lit ''b'', info_path = lit ''/srv/repos/x.git/b.git'',
          info_clone_url_file = lit ''file:///srv/repos/x.git/b.git''\<rparr>]"
    unfolding fs0_eq by (simp add: run_defs list_repos_def rglob_git_def stem_def suffix_def)
  moreover have "\<not> is_bare_repo (snd (create_repo env0 (lit ''x.git'') (lit ''b'') fs0))
         [lit ''srv'', lit ''repos'', lit ''x.git'']"
    unfolding fs0_eq by (simp add: run_defs)
  ultimately show ?thesis by simp
qed

text \<open>
  The scenario of claim C7 itself: after \<open>("acme", "a")\<close> and \<open>("acme", "b")\<close> the listing
  holds these two repositories, each once and under \<open>acme\<close>, and nothing else.
\<close>

lemma list_repos_acme_a_b:
  "list_repos env0
     (snd (create_repo env0 (lit ''acme'') (lit ''b'')
        (snd (create_repo env0 (lit ''acme'') (lit ''a'') fs0)))) =
     [\<lparr>info_org = lit ''acme'', info_name = lit ''a'', info_path = lit ''/srv/repos/acme/a.git'',
        info_clone_url_file = lit ''file:///srv/repos/acme/a.git''\<rparr>,
      \<lparr>info_org = lit ''acme'', info_name = lit ''b'', info_path = lit ''/srv/repos/acme/b.git'',
        info_clone_url_file = lit ''file:///srv/repos/acme/b.git''\<rparr>]"
  unfolding fs0_eq by (simp add: run_defs list_repos_def rglob_git_def stem_def suffix_def)

section \<open>Reading the push log\<close>

lemma universal_newlines_id: "13 \<notin> set c \<Longrightarrow> universal_newlines c = c"
  by (induction c rule: universal_newlines.induct) auto

lemma utf8_decode_bad_byte:
  "list_all (\<lambda>c. c < 128) a \<Longrightarrow> utf8_decode (a @ 255 # r) = None"
  by (induction a) simp_all

lemma name_too_long_within:
  "list_all (\<lambda>c. nbytes c \<le> NAME_MAX) p \<Longrightarrow> \<not> name_too_long fs cur p"
  by (induction p arbitrary: cur) auto

lemma exists_call_within:
  "within_limits p \<Longrightarrow> exists_call fs p = Inr (path_exists fs p)"
  by (simp add: within_limits_def exists_call_def name_too_long_within)

lemma exists_call_cases:
  "exists_call fs p = Inl NameTooLong \<and> (PATH_MAX \<le> nbytes (path_str p) \<or> name_too_long fs [] p)
   \<or> exists_call fs p = Inr (path_exists fs p)
       \<and> nbytes (path_str p) < PATH_MAX \<and> \<not> name_too_long fs [] p"
  by (auto simp: exists_call_def)

lemma get_push_log_cases:
  assumes "safe_name org_raw = Inr org" and "safe_name name_raw = Inr name"
  shows "get_push_log env org_raw name_raw fs =
     (case exists_call fs (repo_path env org name) of
        Inl e \<Rightarrow> Inl (ProvisioningFailure e)
      | Inr False \<Rightarrow> Inl NotFound
      | Inr True \<Rightarrow>
          (case exists_call fs (pjoin (repo_path env org name) (lit ''push.log'')) of
             Inl e \<Rightarrow> Inl (ProvisioningFailure e)
           | Inr False \<Rightarrow>
               Inr \<lparr>log_org = org, log_name = name, log_pushes = [],
                    log_note = Some (lit ''No pushes logged yet'')\<rparr>
           | Inr True \<Rightarrow>
               (case read_text fs (pjoin (repo_path env org name) (lit ''push.log'')) of
                  Inl e \<Rightarrow> Inl (ProvisioningFailure e)
                | Inr t \<Rightarrow>
                    Inr \<lparr>log_org = org, log_name = name, log_pushes = t, log_note = None\<rparr>)))"
  using assms by (auto simp: get_push_log_def Let_def split: sum.splits bool.splits)

lemma get_push_log_NotFound:
  assumes "safe_name org_raw = Inr org" and "safe_name name_raw = Inr name"
  shows "get_push_log env org_raw name_raw fs = Inl NotFound \<longleftrightarrow>
           \<not> path_exists fs (repo_path env org name)
         \<and> nbytes (path_str (repo_path env org name)) < PATH_MAX
         \<and> \<not> name_too_long fs [] (repo_path env org name)"
  unfolding get_push_log_cases [OF assms]
  using exists_call_cases [of fs "repo_path env org name"]
  by (auto split: sum.splits bool.splits)

lemma get_push_log_too_long:
  assumes "safe_name org_raw = Inr org" and "safe_name name_raw = Inr name"
    and "PATH_MAX \<le> nbytes (path_str (repo_path env org name))
         \<or> name_too_long fs [] (repo_path env org name)"
  shows "get_push_log env org_raw name_raw fs = Inl (ProvisioningFailure NameTooLong)"
  unfolding get_push_log_cases [OF assms(1,2)]
  using assms(3) by (simp add: exists_call_def)

lemma get_push_log_fresh:
  assumes "safe_name org_raw = Inr org" and "safe_name name_raw = Inr name"
    and "within_limits (repo_path env org name)"
    and "within_limits (pjoin (repo_path env org name) (lit ''push.log''))"
    and "path_exists fs (repo_path env org name)"
    and "\<not> path_exists fs (pjoin (repo_path env org name) (lit ''push.log''))"
  shows "get_push_log env org_raw name_raw fs =
           Inr \<lparr>log_org = org, log_name = name, log_pushes = [],
                log_note = Some (lit ''No pushes logged yet'')\<rparr>"
  unfolding get_push_log_cases [OF assms(1,2)]
  using assms(5,6) by (simp add: exists_call_within [OF assms(3)] exists_call_within [OF assms(4)])

lemma get_push_log_file:
  assumes "safe_name org_raw = Inr org" and "safe_name name_raw = Inr name"
    and "within_limits (repo_path env org name)"
    and "within_limits (pjoin (repo_path env org name) (lit ''push.log''))"
    and "path_exists fs (repo_path env org name)"
    and "lookup fs (pjoin (repo_path env org name) (lit ''push.log'')) = Some (File b m)"
  shows "get_push_log env org_raw name_raw fs =
           (case utf8_decode b of
              None \<Rightarrow> Inl (ProvisioningFailure UnicodeDecodeError)
            | Some t \<Rightarrow>
                Inr \<lparr>log_org = org, log_name = name, log_pushes = universal_newlines t,
                     log_note = None\<rparr>)"
  unfolding get_push_log_cases [OF assms(1,2)]
  using assms(5,6)
  by (simp add: exists_call_within [OF assms(3)] exists_call_within [OF assms(4)]
      path_exists_def read_text_def split: option.splits)

text \<open>The paths of the concrete installation are within the limits.\<close>

lemma acme_widgets_within:
  "within_limits [lit ''srv'', lit ''repos'', lit ''acme'', lit ''widgets.git'']"
  "within_limits [lit ''srv'', lit ''repos'', lit ''acme'', lit ''widgets.git'', lit ''push.log'']"
  by (simp_all add: within_limits_def nbytes_def path_str_def NAME_MAX_def PATH_MAX_def lit_def
      utf8_encode_char_def)

lemma acme_widgets_log_path:
  "pjoin [lit ''srv'', lit ''repos'', lit ''acme'', lit ''widgets.git''] (lit ''push.log'') =
     [lit ''srv'', lit ''repos'', lit ''acme'', lit ''widgets.git'', lit ''push.log'']"
  by (simp add: pjoin_def lit_def)

lemma acme_widgets_exists:
  "path_exists (snd (create_repo env0 (lit ''acme'') (lit ''widgets'') fs0))
     [lit ''srv'', lit ''repos'', lit ''acme'', lit ''widgets.git'']"
  using acme_widgets_bare by (simp add: is_bare_repo_def is_dir_def path_exists_def)

lemma post_receive_cr:
  "post_receive he_cr [] [] =
     lit ''=== PUSH ==='' @ [10] @ lit ''time_utc=2024-01-01T00:00:00Z'' @ [10]
     @ lit ''pusher=bob'' @ [13, 10] @ lit ''repo=/srv/repos/acme/widgets.git'' @ [10]
     @ lit ''updates:'' @ [10, 10]"
  by (simp add: post_receive_def echo_def he_cr_def pusher_def hook_loop.simps read_line_def lit_def)

lemma post_receive_ff:
  "post_receive he_ff [] [] =
     (lit ''=== PUSH ==='' @ [10] @ lit ''time_utc=2024-01-01T00:00:00Z'' @ [10]
      @ lit ''pusher=bob'') @ 255 # ([10] @ lit ''repo=/srv/repos/acme/widgets.git'' @ [10]
     @ lit ''updates:'' @ [10, 10])"
  by (simp add: post_receive_def echo_def he_ff_def pusher_def hook_loop.simps read_line_def lit_def)

lemma decode_cr: "utf8_decode (post_receive he_cr [] []) = Some (post_receive he_cr [] [])"
  by (rule utf8_decode_ascii) (simp add: post_receive_cr lit_def)

lemma decode_ff: "utf8_decode (post_receive he_ff [] []) = None"
  unfolding post_receive_ff by (rule utf8_decode_bad_byte) (simp add: lit_def)

lemma get_push_log_cr:
  "get_push_log env0 (lit ''acme'') (lit ''widgets'') fs_pushed =
     Inr \<lparr>log_org = lit ''acme'', log_name = lit ''widgets'',
          log_pushes = universal_newlines (post_receive he_cr [] []), log_note = None\<rparr>"
proof -
  let ?rd = "[lit ''srv'', lit ''repos'', lit ''acme'', lit ''widgets.git'']"
  have e: "path_exists fs_pushed ?rd"
    using acme_widgets_exists by (simp add: fs_pushed_def path_exists_def lookup_update)
  have l: "lookup fs_pushed (?rd @ [lit ''push.log'']) = Some (File (post_receive he_cr [] []) 420)"
    by (simp add: fs_pushed_def lookup_update)
  from get_push_log_file [OF safe_acme safe_widgets, of env0 fs_pushed "post_receive he_cr [] []" 420]
  show ?thesis
    unfolding acme_widgets_path acme_widgets_log_path
    using acme_widgets_within e l by (simp add: decode_cr)
qed

lemma get_push_log_ff:
  "get_push_log env0 (lit ''acme'') (lit ''widgets'') fs_pushed_ff =
     Inl (ProvisioningFailure UnicodeDecodeError)"
proof -
  let ?rd = "[lit ''srv'', lit ''repos'', lit ''acme'', lit ''widgets.git'']"
  have e: "path_exists fs_pushed_ff ?rd"
    using acme_widgets_exists by (simp add: fs_pushed_ff_def path_exists_def lookup_update)
  have l: "lookup fs_pushed_ff (?rd @ [lit ''push.log'']) = Some (File (post_receive he_ff [] []) 420)"
    by (simp add: fs_pushed_ff_def lookup_update)
  from get_push_log_file [OF safe_acme safe_widgets, of env0 fs_pushed_ff "post_receive he_ff [] []" 420]
  show ?thesis
    unfolding acme_widgets_path acme_widgets_log_path
    using acme_widgets_within e l by (simp add: decode_ff)
qed

text \<open>The long name passes the validator, and its directory name has 256 bytes.\<close>

lemma str_in_set: "str_in sub s \<Longrightarrow> set sub \<subseteq> set s"
  by (simp add: str_in_sublist set_mono_sublist)

lemma safe_long_name: "safe_name long_name = Inr long_name"
proof (rule safe_name_allowed)
  show "long_name \<noteq> []" by (simp add: long_name_def)
  show "set long_name \<subseteq> allowed" by (simp add: long_name_def allowed_iff)
  show "\<not> str_in (lit ''..'') long_name"
    using str_in_set [of "lit ''..''" long_name] by (auto simp: long_name_def lit_def)
qed

lemma long_name_bytes: "nbytes (long_name @ lit ''.git'') = 256"
proof -
  have "list_all (\<lambda>c. c < 128) (long_name @ lit ''.git'')"
    by (simp add: long_name_def lit_def list_all_iff)
  then have "utf8_encode (long_name @ lit ''.git'') = Some (long_name @ lit ''.git'')"
    by (rule utf8_encode_ascii)
  then show ?thesis
    by (simp add: nbytes_def long_name_def lit_def)
qed

lemma long_name_path:
  "repo_path env0 (lit ''acme'') long_name = [lit ''srv'', lit ''repos'', lit ''acme'', long_name @ lit ''.git'']"
  by (simp add: repo_path_def REPO_ROOT_def env0_def pjoin_def git_suffix_join lit_def)

lemma acme_dirs:
  "lookup (snd (create_repo env0 (lit ''acme'') (lit ''widgets'') fs0)) [lit ''srv''] = Some Dir"
  "lookup (snd (create_repo env0 (lit ''acme'') (lit ''widgets'') fs0)) [lit ''srv'', lit ''repos''] = Some Dir"
  "lookup (snd (create_repo env0 (lit ''acme'') (lit ''widgets'') fs0)) [lit ''srv'', lit ''repos'', lit ''acme''] = Some Dir"
  unfolding fs0_eq by (simp_all add: run_defs)

lemma long_name_too_long:
  "name_too_long (snd (create_repo env0 (lit ''acme'') (lit ''widgets'') fs0)) []
     [lit ''srv'', lit ''repos'', lit ''acme'', long_name @ lit ''.git'']"
  by (simp add: acme_dirs long_name_bytes NAME_MAX_def)

lemma long_name_missing:
  "\<not> path_exists (snd (create_repo env0 (lit ''acme'') (lit ''widgets'') fs0))
      [lit ''srv'', lit ''repos'', lit ''acme'', long_name @ lit ''.git'']"
proof -
  have "length (long_name @ lit ''.git'') = 256"
    by (simp add: long_name_def lit_def)
  then have n: "\<And>s. length s < 256 \<Longrightarrow> s \<noteq> long_name @ lit ''.git''"
    by auto
  have "lit ''widgets.git'' \<noteq> long_name @ lit ''.git''"
    by (rule n) (simp add: lit_def)
  then show ?thesis
    unfolding fs0_eq by (simp add: run_defs)
qed

text \<open>
  Claim C6 as stated fails in three ways. The log is read in text mode, which delivers a
  carriage return as a line feed: after a push by a pusher whose name ends in a carriage
  return, the answer is not the content of the file. The log is decoded as UTF-8: after
  a push by a pusher whose name ends in the byte \<open>0xFF\<close>, the file is present and the
  call fails. And \<^verbatim>\<open>exists\<close> raises for a name that is too long: for the accepted name
  of 252 letters in the existing organization \<open>acme\<close>, the repository does not exist and
  the call fails with that error, not with \<open>NotFound\<close>.
\<close>

theorem get_push_log_not_verbatim_counterexample:
  "safe_name (lit ''acme'') = Inr (lit ''acme'') \<and> safe_name (lit ''widgets'') = Inr (lit ''widgets'')
   \<and> lookup fs_pushed [lit ''srv'', lit ''repos'', lit ''acme'', lit ''widgets.git'', lit ''push.log'']
        = Some (File (post_receive he_cr [] []) 420)
   \<and> get_push_log env0 (lit ''acme'') (lit ''widgets'') fs_pushed =
        Inr \<lparr>log_org = lit ''acme'', log_name = lit ''widgets'',
             log_pushes = universal_newlines (post_receive he_cr [] []), log_note = None\<rparr>
   \<and> universal_newlines (post_receive he_cr [] []) \<noteq> post_receive he_cr [] []
   \<and> lookup fs_pushed_ff [lit ''srv'', lit ''repos'', lit ''acme'', lit ''widgets.git'', lit ''push.log'']
        = Some (File (post_receive he_ff [] []) 420)
   \<and> get_push_log env0 (lit ''acme'') (lit ''widgets'') fs_pushed_ff =
        Inl (ProvisioningFailure UnicodeDecodeError)
   \<and> safe_name long_name = Inr long_name
   \<and> \<not> path_exists (snd (create_repo env0 (lit ''acme'') (lit ''widgets'') fs0))
         (repo_path env0 (lit ''acme'') long_name)
   \<and> get_push_log env0 (lit ''acme'') long_name
        (snd (create_repo env0 (lit ''acme'') (lit ''widgets'') fs0)) =
        Inl (ProvisioningFailure NameTooLong)"
proof -
  have 1: "lookup fs_pushed [lit ''srv'', lit ''repos'', lit ''acme'', lit ''widgets.git'', lit ''push.log'']
        = Some (File (post_receive he_cr [] []) 420)"
    by (simp add: fs_pushed_def lookup_update)
  have "length (universal_newlines (post_receive he_cr [] [])) \<noteq> length (post_receive he_cr [] [])"
    unfolding post_receive_cr by (simp add: lit_def)
  then have 2: "universal_newlines (post_receive he_cr [] []) \<noteq> post_receive he_cr [] []"
    by auto
  have 3: "lookup fs_pushed_ff [lit ''srv'', lit ''repos'', lit ''acme'', lit ''widgets.git'', lit ''push.log'']
        = Some (File (post_receive he_ff [] []) 420)"
    by (simp add: fs_pushed_ff_def lookup_update)
  have 4: "get_push_log env0 (lit ''acme'') long_name
        (snd (create_repo env0 (lit ''acme'') (lit ''widgets'') fs0)) =
        Inl (ProvisioningFailure NameTooLong)"
    by (rule get_push_log_too_long [OF safe_acme safe_long_name])
       (rule disjI2, unfold long_name_path, rule long_name_too_long)
  from 1 2 3 4 get_push_log_cr get_push_log_ff safe_acme safe_widgets safe_long_name long_name_missing
  show ?thesis
    by (simp add: long_name_path)
qed

text \<open>
  Claim C6, amended. For identifiers that the validator accepts, reading the push log
  fails with \<open>NotFound\<close> exactly when the repository does not exist and looking its path
  up meets no name beyond the limits of the file system (where it does, the call fails
  with the error of the lookup); in particular, with the path within the limits,
  exactly when the repository does not exist. With the paths of the repository and of
  the log within the limits and the repository there: it returns the empty string with
  the note \<open>No pushes logged yet\<close> when the log file does not exist; and when the log
  file is present it returns the content of the file decoded as UTF-8 and read in text
  mode, every carriage return and every carriage return with its line feed delivered as
  one line feed, and fails when the content is not UTF-8. A log of ASCII bytes without a
  carriage return is returned as it is.
\<close>

theorem get_push_log_spec:
  assumes "safe_name org_raw = Inr org" and "safe_name name_raw = Inr name"
  shows "(get_push_log env org_raw name_raw fs = Inl NotFound \<longleftrightarrow>
            \<not> path_exists fs (repo_path env org name)
          \<and> nbytes (path_str (repo_path env org name)) < PATH_MAX
          \<and> \<not> name_too_long fs [] (repo_path env org name))
       \<and> (PATH_MAX \<le> nbytes (path_str (repo_path env org name))
            \<or> name_too_long fs [] (repo_path env org name) \<longrightarrow>
            get_push_log env org_raw name_raw fs = Inl (ProvisioningFailure NameTooLong))
       \<and> (within_limits (repo_path env org name) \<longrightarrow>
            (get_push_log env org_raw name_raw fs = Inl NotFound \<longleftrightarrow>
               \<not> path_exists fs (repo_path env org name)))
       \<and> (within_limits (repo_path env org name) \<longrightarrow>
           within_limits (pjoin (repo_path env org name) (lit ''push.log'')) \<longrightarrow>
           path_exists fs (repo_path env org name) \<longrightarrow>
             (\<not> path_exists fs (pjoin (repo_path env org name) (lit ''push.log'')) \<longrightarrow>
                get_push_log env org_raw name_raw fs =
                  Inr \<lparr>log_org = org, log_name = name, log_pushes = [],
                       log_note = Some (lit ''No pushes logged yet'')\<rparr>)
           \<and> (\<forall>b m. lookup fs (pjoin (repo_path env org name) (lit ''push.log'')) = Some (File b m) \<longrightarrow>
                (\<forall>t. utf8_decode b = Some t \<longrightarrow>
                   get_push_log env org_raw name_raw fs =
                     Inr \<lparr>log_org = org, log_name = name, log_pushes = universal_newlines t,
                          log_note = None\<rparr>)
              \<and> (utf8_decode b = None \<longrightarrow>
                   get_push_log env org_raw name_raw fs = Inl (ProvisioningFailure UnicodeDecodeError))
              \<and> (list_all (\<lambda>c. c < 128) b \<longrightarrow> 13 \<notin> set b \<longrightarrow>
                   get_push_log env org_raw name_raw fs =
                     Inr \<lparr>log_org = org, log_name = name, log_pushes = b, log_note = None\<rparr>)))"
proof (intro conjI impI allI)
  show "get_push_log env org_raw name_raw fs = Inl NotFound \<longleftrightarrow>
            \<not> path_exists fs (repo_path env org name)
          \<and> nbytes (path_str (repo_path env org name)) < PATH_MAX
          \<and> \<not> name_too_long fs [] (repo_path env org name)"
    by (rule get_push_log_NotFound [OF assms])
next
  assume "PATH_MAX \<le> nbytes (path_str (repo_path env org name))
            \<or> name_too_long fs [] (repo_path env org name)"
  then show "get_push_log env org_raw name_raw fs = Inl (ProvisioningFailure NameTooLong)"
    by (rule get_push_log_too_long [OF assms])
next
  assume "within_limits (repo_path env org name)"
  then show "get_push_log env org_raw name_raw fs = Inl NotFound \<longleftrightarrow>
               \<not> path_exists fs (repo_path env org name)"
    unfolding get_push_log_NotFound [OF assms]
    by (auto simp: within_limits_def name_too_long_within)
next
  assume "within_limits (repo_path env org name)"
    "within_limits (pjoin (repo_path env org name) (lit ''push.log''))"
    "path_exists fs (repo_path env org name)"
    "\<not> path_exists fs (pjoin (repo_path env org name) (lit ''push.log''))"
  then show "get_push_log env org_raw name_raw fs =
      Inr \<lparr>log_org = org, log_name = name, log_pushes = [],
           log_note = Some (lit ''No pushes logged yet'')\<rparr>"
    by (rule get_push_log_fresh [OF assms])
next
  fix b m t
  assume "within_limits (repo_path env org name)"
    "within_limits (pjoin (repo_path env org name) (lit ''push.log''))"
    "path_exists fs (repo_path env org name)"
    "lookup fs (pjoin (repo_path env org name) (lit ''push.log'')) = Some (File b m)"
    and d: "utf8_decode b = Some t"
  from get_push_log_file [OF assms this(1-4)] d
  show "get_push_log env org_raw name_raw fs =
      Inr \<lparr>log_org = org, log_name = name, log_pushes = universal_newlines t, log_note = None\<rparr>"
    by simp
next
  fix b m
  assume "within_limits (repo_path env org name)"
    "within_limits (pjoin (repo_path env org name) (lit ''push.log''))"
    "path_exists fs (repo_path env org name)"
    "lookup fs (pjoin (repo_path env org name) (lit ''push.log'')) = Some (File b m)"
    and d: "utf8_decode b = None"
  from get_push_log_file [OF assms this(1-4)] d
  show "get_push_log env org_raw name_raw fs = Inl (ProvisioningFailure UnicodeDecodeError)"
    by simp
next
  fix b m
  assume "within_limits (repo_path env org name)"
    "within_limits (pjoin (repo_path env org name) (lit ''push.log''))"
    "path_exists fs (repo_path env org name)"
    "lookup fs (pjoin (repo_path env org name) (lit ''push.log'')) = Some (File b m)"
    and a: "list_all (\<lambda>c. c < 128) b" and c: "13 \<notin> set b"
  from get_push_log_file [OF assms this(1-4)] utf8_decode_ascii [OF a] universal_newlines_id [OF c]
  show "get_push_log env org_raw name_raw fs =
      Inr \<lparr>log_org = org, log_name = name, log_pushes = b, log_note = None\<rparr>"
    by simp
qed

theorem get_push_log_spec_witness:
  "get_push_log env0 (lit ''acme'') (lit ''widgets'') fs0 = Inl NotFound
   \<and> get_push_log env0 (lit ''acme'') (lit ''widgets'')
        (snd (create_repo env0 (lit ''acme'') (lit ''widgets'') fs0)) =
        Inr \<lparr>log_org = lit ''acme'', log_name = lit ''widgets'', log_pushes = [],
             log_note = Some (lit ''No pushes logged yet'')\<rparr>
   \<and> get_push_log env0 (lit ''acme'') (lit ''widgets'') fs_pushed =
        Inr \<lparr>log_org = lit ''acme'', log_name = lit ''widgets'',
             log_pushes = universal_newlines (post_receive he_cr [] []), log_note = None\<rparr>
   \<and> get_push_log env0 (lit ''acme'') (lit ''widgets'') fs_pushed_ff =
        Inl (ProvisioningFailure UnicodeDecodeError)
   \<and> get_push_log env0 (lit ''acme'') long_name
        (snd (create_repo env0 (lit ''acme'') (lit ''widgets'') fs0)) =
        Inl (ProvisioningFailure NameTooLong)"
proof -
  let ?rd = "[lit ''srv'', lit ''repos'', lit ''acme'', lit ''widgets.git'']"
  let ?lp = "[lit ''srv'', lit ''repos'', lit ''acme'', lit ''widgets.git'', lit ''push.log'']"
  let ?r = "create_repo env0 (lit ''acme'') (lit ''widgets'') fs0"
  note t = get_push_log_spec [OF safe_acme safe_widgets, of env0,
      unfolded acme_widgets_path acme_widgets_log_path]
  note w = acme_widgets_within
  have 0: "\<not> path_exists fs0 ?rd"
    unfolding fs0_eq by (simp add: fs_defs lit_def)
  have 1: "path_exists (snd ?r) ?rd"
    by (rule acme_widgets_exists)
  have 2: "\<not> path_exists (snd ?r) ?lp"
    unfolding fs0_eq by (simp add: run_defs)
  have 3: "path_exists fs_pushed ?rd"
    using 1 by (simp add: fs_pushed_def path_exists_def lookup_update)
  have 4: "lookup fs_pushed ?lp = Some (File (post_receive he_cr [] []) 420)"
    by (simp add: fs_pushed_def lookup_update)
  have 5: "path_exists fs_pushed_ff ?rd"
    using 1 by (simp add: fs_pushed_ff_def path_exists_def lookup_update)
  have 6: "lookup fs_pushed_ff ?lp = Some (File (post_receive he_ff [] []) 420)"
    by (simp add: fs_pushed_ff_def lookup_update)
  from t [of fs0] w 0 have a: "get_push_log env0 (lit ''acme'') (lit ''widgets'') fs0 = Inl NotFound"
    by blast
  from t [of "snd ?r"] w 1 2 have b: "get_push_log env0 (lit ''acme'') (lit ''widgets'') (snd ?r) =
        Inr \<lparr>log_org = lit ''acme'', log_name = lit ''widgets'', log_pushes = [],
             log_note = Some (lit ''No pushes logged yet'')\<rparr>"
    by blast
  from t [of fs_pushed] w 3 4 decode_cr have c: "get_push_log env0 (lit ''acme'') (lit ''widgets'') fs_pushed =
        Inr \<lparr>log_org = lit ''acme'', log_name = lit ''widgets'',
             log_pushes = universal_newlines (post_receive he_cr [] []), log_note = None\<rparr>"
    by blast
  from t [of fs_pushed_ff] w 5 6 decode_ff
  have d: "get_push_log env0 (lit ''acme'') (lit ''widgets'') fs_pushed_ff =
        Inl (ProvisioningFailure UnicodeDecodeError)"
    by blast
  from get_push_log_spec [OF safe_acme safe_long_name, of env0 "snd ?r", unfolded long_name_path]
    long_name_too_long
  have e: "get_push_log env0 (lit ''acme'') long_name (snd ?r) = Inl (ProvisioningFailure NameTooLong)"
    by blast
  from a b c d e show ?thesis by simp
qed

section \<open>The hook's log\<close>

lemma takeWhile_stop:
  "\<forall>x\<in>set xs. P x \<Longrightarrow> \<not> P y \<Longrightarrow> takeWhile P (xs @ y # ys) = xs"
  by (induction xs) auto

lemma dropWhile_stop:
  "\<forall>x\<in>set xs. P x \<Longrightarrow> \<not> P y \<Longrightarrow> dropWhile P (xs @ y # ys) = y # ys"
  by (induction xs) auto

lemma word_chars: "word w \<Longrightarrow> \<forall>c\<in>set w. \<not> ifs c"
  by (simp add: word_def list_all_iff)

lemma word_no_newline: "word w \<Longrightarrow> \<forall>c\<in>set w. c \<noteq> 10"
  by (auto simp: word_def list_all_iff ifs_def)

lemma word_no_nul: "word w \<Longrightarrow> \<forall>c\<in>set w. c \<noteq> 0"
  by (simp add: word_def list_all_iff)

lemma dropWhile_ifs_word: "word w \<Longrightarrow> dropWhile ifs (w @ xs) = w @ xs"
  by (cases w) (auto simp: word_def)

lemma read_line_stdin:
  assumes "ref_update (oldrev, newrev, refname)"
  shows "read_line (stdin_line (oldrev, newrev, refname) @ rest) =
           Some (oldrev @ 32 # newrev @ 32 # refname, rest)"
proof -
  let ?l = "oldrev @ 32 # newrev @ 32 # refname"
  from assms have w: "word oldrev" "word newrev" "word refname"
    by (simp_all add: ref_update_def)
  from w have "\<forall>c\<in>set ?l. c \<noteq> 10"
    using word_no_newline by auto
  then have "takeWhile (\<lambda>c. c \<noteq> 10) (?l @ 10 # rest) = ?l"
    and "dropWhile (\<lambda>c. c \<noteq> 10) (?l @ 10 # rest) = 10 # rest"
    by (simp_all only: takeWhile_stop dropWhile_stop simp_thms)
  moreover have "filter (\<lambda>c. c \<noteq> 0) ?l = ?l"
  proof -
    have "\<forall>c\<in>set ?l. c \<noteq> 0"
      using w word_no_nul by auto
    then show ?thesis
      unfolding filter_id_conv .
  qed
  ultimately show ?thesis
    by (simp add: read_line_def stdin_line_def)
qed

lemma split3_stdin:
  assumes "ref_update (oldrev, newrev, refname)"
  shows "split3 (oldrev @ 32 # newrev @ 32 # refname) = (oldrev, newrev, refname)"
proof -
  from assms have w: "word oldrev" "word newrev" "word refname"
    by (simp_all add: ref_update_def)
  have s: "ifs 32" by (simp add: ifs_def)
  let ?r1 = "newrev @ 32 # refname"
  have 1: "dropWhile ifs (oldrev @ 32 # ?r1) = oldrev @ 32 # ?r1"
    by (rule dropWhile_ifs_word [OF w(1)])
  have 2: "takeWhile (\<lambda>c. \<not> ifs c) (oldrev @ 32 # ?r1) = oldrev"
    using word_chars [OF w(1)] s by (simp add: takeWhile_stop)
  have 3: "dropWhile (\<lambda>c. \<not> ifs c) (oldrev @ 32 # ?r1) = 32 # ?r1"
    using word_chars [OF w(1)] s by (simp add: dropWhile_stop)
  have 4: "dropWhile ifs (32 # ?r1) = ?r1"
    using s dropWhile_ifs_word [OF w(2), of "32 # refname"] by simp
  have 5: "takeWhile (\<lambda>c. \<not> ifs c) ?r1 = newrev"
    using word_chars [OF w(2)] s by (simp add: takeWhile_stop)
  have 6: "dropWhile (\<lambda>c. \<not> ifs c) ?r1 = 32 # refname"
    using word_chars [OF w(2)] s by (simp add: dropWhile_stop)
  have 7: "dropWhile ifs (32 # refname) = refname"
    using s dropWhile_ifs_word [OF w(3), of "[]"] by simp
  have "\<forall>c\<in>set (rev refname). \<not> ifs c"
    using word_chars [OF w(3)] by simp
  then have 8: "dropWhile ifs (rev refname) = rev refname"
    by (rule dropWhile_none)
  show ?thesis
    by (simp add: split3_def Let_def 1 2 3 4 5 6 7 8 del: append.simps dropWhile.simps takeWhile.simps)
qed

lemma hook_loop_Nil: "hook_loop [] = []"
  by (simp add: hook_loop.simps read_line_def)

lemma hook_loop_stdin:
  assumes "ref_update (oldrev, newrev, refname)"
  shows "hook_loop (stdin_line (oldrev, newrev, refname) @ rest) =
           (lit ''  '' @ refname @ lit '' '' @ oldrev @ lit '' -> '' @ newrev @ [10]) @ hook_loop rest"
  by (subst hook_loop.simps)
     (simp add: read_line_stdin [OF assms] split3_stdin [OF assms] update_line_def echo_def)

lemma hook_loop_updates:
  "list_all ref_update ups \<Longrightarrow>
     hook_loop (concat (map stdin_line ups)) =
       concat (map (\<lambda>(oldrev, newrev, refname).
                      lit ''  '' @ refname @ lit '' '' @ oldrev @ lit '' -> '' @ newrev @ [10]) ups)"
proof (induction ups)
  case Nil
  show ?case by (simp add: hook_loop_Nil)
next
  case (Cons t ups)
  obtain oldrev newrev refname where t: "t = (oldrev, newrev, refname)"
    by (cases t) auto
  from Cons show ?case
    unfolding t by (simp add: hook_loop_stdin)
qed

lemma update_line_one_line:
  assumes "ref_update (oldrev, newrev, refname)"
  shows "10 \<notin> set (lit ''  '' @ refname @ lit '' '' @ oldrev @ lit '' -> '' @ newrev)"
proof -
  from assms have "10 \<notin> set oldrev" "10 \<notin> set newrev" "10 \<notin> set refname"
    unfolding ref_update_def using word_no_newline by auto
  then show ?thesis
    by (simp add: lit_def)
qed

text \<open>
  Claim C5. For every number of ref updates that the engine feeds to the hook, the hook
  appends one block to the log, and the log after the run is, byte for byte: the log
  before it, the header line, the time, the pusher (\<open>unknown\<close> when the variable is unset
  or empty), the path of the repository, the line \<open>updates:\<close>, then one line for each
  update, in the order of the input and in the form
  \<^verbatim>\<open>  <ref_name> <old_revision> -> <new_revision>\<close>, and an empty line, every line ended by
  a newline. No update line holds a newline of its own, so there are as many of them as
  updates.
\<close>

theorem post_receive_block:
  assumes "list_all ref_update ups"
  shows "post_receive he (concat (map stdin_line ups)) log =
           log
           @ lit ''=== PUSH ==='' @ [10]
           @ lit ''time_utc='' @ now he @ [10]
           @ lit ''pusher=''
             @ (if pusher_name he = None \<or> pusher_name he = Some [] then lit ''unknown''
                else the (pusher_name he)) @ [10]
           @ lit ''repo='' @ cwd he @ [10]
           @ lit ''updates:'' @ [10]
           @ concat (map (\<lambda>(oldrev, newrev, refname).
                            lit ''  '' @ refname @ lit '' '' @ oldrev @ lit '' -> '' @ newrev @ [10]) ups)
           @ [10]
       \<and> list_all (\<lambda>(oldrev, newrev, refname).
            10 \<notin> set (lit ''  '' @ refname @ lit '' '' @ oldrev @ lit '' -> '' @ newrev)) ups"
proof -
  have p: "pusher he = (if pusher_name he = None \<or> pusher_name he = Some [] then lit ''unknown''
                else the (pusher_name he))"
    by (auto simp: pusher_def split: option.splits)
  have "list_all (\<lambda>(oldrev, newrev, refname).
            10 \<notin> set (lit ''  '' @ refname @ lit '' '' @ oldrev @ lit '' -> '' @ newrev)) ups"
    unfolding list_all_iff
  proof
    fix t assume "t \<in> set ups"
    with assms have r: "ref_update t" by (simp add: list_all_iff)
    obtain oldrev newrev refname where t: "t = (oldrev, newrev, refname)"
      by (cases t) auto
    from update_line_one_line [OF r [unfolded t]]
    show "case t of (oldrev, newrev, refname) \<Rightarrow>
            10 \<notin> set (lit ''  '' @ refname @ lit '' '' @ oldrev @ lit '' -> '' @ newrev)"
      unfolding t by simp
  qed
  then show ?thesis
    using hook_loop_updates [OF assms]
    by (simp add: post_receive_def echo_def p)
qed

text \<open>
  Two runs, with the bytes written out. In the first the log holds the line \<open>old\<close> and
  the engine reports two updates, of \<^verbatim>\<open>refs/heads/main\<close> from \<open>aaa\<close> to \<open>bbb\<close> and of
  \<^verbatim>\<open>refs/tags/v1\<close> from \<open>0\<close> to \<open>c\<close>; in the second there is no log and no update.
\<close>

theorem post_receive_block_witness:
  "list_all ref_update
     [([97, 97, 97], [98, 98, 98], [114, 101, 102, 115, 47, 104, 101, 97, 100, 115, 47, 109, 97, 105, 110]),
      ([48], [99], [114, 101, 102, 115, 47, 116, 97, 103, 115, 47, 118, 49])]
   \<and> post_receive
        \<lparr>pusher_name = None, cwd = lit ''/srv/repos/acme/widgets.git'',
         now = lit ''2024-01-01T00:00:00Z''\<rparr>
        [97, 97, 97, 32, 98, 98, 98, 32, 114, 101, 102, 115, 47, 104, 101, 97, 100,
        115, 47, 109, 97, 105, 110, 10, 48, 32, 99, 32, 114, 101, 102, 115, 47, 116,
        97, 103, 115, 47, 118, 49, 10]
        [111, 108, 100, 10] =
      [111, 108, 100, 10, 61, 61, 61, 32, 80, 85, 83, 72, 32, 61, 61, 61, 10, 116,
      105, 109, 101, 95, 117, 116, 99, 61, 50, 48, 50, 52, 45, 48, 49, 45, 48, 49,
      84, 48, 48, 58, 48, 48, 58, 48, 48, 90, 10, 112, 117, 115, 104, 101, 114, 61,
      117, 110, 107, 110, 111, 119, 110, 10, 114, 101, 112, 111, 61, 47, 115, 114,
      118, 47, 114, 101, 112, 111, 115, 47, 97, 99, 109, 101, 47, 119, 105, 100,
      103, 101, 116, 115, 46, 103, 105, 116, 10, 117, 112, 100, 97, 116, 101, 115,
      58, 10, 32, 32, 114, 101, 102, 115, 47, 104, 101, 97, 100, 115, 47, 109, 97,
      105, 110, 32, 97, 97, 97, 32, 45, 62, 32, 98, 98, 98, 10, 32, 32, 114, 101,
      102, 115, 47, 116, 97, 103, 115, 47, 118, 49, 32, 48, 32, 45, 62, 32, 99, 10,
      10]
   \<and> post_receive
        \<lparr>pusher_name = None, cwd = lit ''/srv/repos/acme/widgets.git'',
         now = lit ''2024-01-01T00:00:00Z''\<rparr>
        [] [] =
      [61, 61, 61, 32, 80, 85, 83, 72, 32, 61, 61, 61, 10, 116, 105, 109, 101, 95,
      117, 116, 99, 61, 50, 48, 50, 52, 45, 48, 49, 45, 48, 49, 84, 48, 48, 58, 48,
      48, 58, 48, 48, 90, 10, 112, 117, 115, 104, 101, 114, 61, 117, 110, 107, 110,
      111, 119, 110, 10, 114, 101, 112, 111, 61, 47, 115, 114, 118, 47, 114, 101,
      112, 111, 115, 47, 97, 99, 109, 101, 47, 119, 105, 100, 103, 101, 116, 115,
      46, 103, 105, 116, 10, 117, 112, 100, 97, 116, 101, 115, 58, 10, 10]"
proof -
  let ?ups = "[([97, 97, 97], [98, 98, 98], [114, 101, 102, 115, 47, 104, 101, 97, 100, 115, 47, 109, 97, 105, 110]),
      ([48], [99], [114, 101, 102, 115, 47, 116, 97, 103, 115, 47, 118, 49])]"
  let ?he = "\<lparr>pusher_name = None, cwd = lit ''/srv/repos/acme/widgets.git'',
         now = lit ''2024-01-01T00:00:00Z''\<rparr>"
  have a: "list_all ref_update ?ups"
    by (simp add: ref_update_def word_def ifs_def)
  have b: "list_all ref_update []"
    by simp
  have i: "concat (map stdin_line ?ups) =
      [97, 97, 97, 32, 98, 98, 98, 32, 114, 101, 102, 115, 47, 104, 101, 97, 100,
        115, 47, 109, 97, 105, 110, 10, 48, 32, 99, 32, 114, 101, 102, 115, 47, 116,
        97, 103, 115, 47, 118, 49, 10]"
    by (simp add: stdin_line_def)
  from post_receive_block [OF a, of ?he "[111, 108, 100, 10]"] post_receive_block [OF b, of ?he "[]"] a
  show ?thesis
    unfolding i by (simp add: lit_def)
qed

section \<open>The states during the installation of the hook\<close>

lemma not_executable_new_file: "\<not> executable (438 AND NOT u)"
proof -
  have "(438 AND NOT u) AND 64 = (438 AND 64) AND NOT u"
    by (simp add: ac_simps)
  also have "\<dots> = 0" by simp
  finally show ?thesis by (simp add: executable_def)
qed

lemma hook_states_ends:
  "hd (write_post_receive_hook_states env rd fs) = fs"
  "last (write_post_receive_hook_states env rd fs) = snd (write_post_receive_hook env rd fs)"
  by (auto simp: write_post_receive_hook_states_def write_post_receive_hook_def write_text_def Let_def
      hook_content_utf8 split: sum.splits)

lemma hook_states_fresh:
  assumes "write_post_receive_hook env rd fs = (None, fs')"
    and "lookup fs (hook_path rd) = None"
  shows "\<exists>fs1 fs2 fs3.
           write_post_receive_hook_states env rd fs = [fs, fs1, fs2, fs3, fs']
         \<and> lookup fs1 (hook_path rd) = None
         \<and> lookup fs2 (hook_path rd) = Some (File [] (438 AND NOT (umask env)))
         \<and> lookup fs3 (hook_path rd) = Some (File hook_content (438 AND NOT (umask env)))"
proof -
  let ?hd = "pjoin rd (lit ''hooks'')"
  let ?hp = "hook_path rd"
  have hp: "pjoin ?hd (lit ''post-receive'') = ?hp"
    by (simp add: hook_path_def)
  from assms(1) obtain fs1 fs3 where
    1: "mkdir_parents fs ?hd = Inr fs1" and
    2: "write_text (umask env) fs1 ?hp hook_content = (None, fs3)" and
    3: "chmod fs3 ?hp 493 = Inr fs'"
    by (auto simp: write_post_receive_hook_def Let_def hp split: sum.splits prod.splits option.splits)
  from 2 obtain fs2 where o: "open_w (umask env) fs1 ?hp = Inr fs2" and w: "fs3 = write_data fs2 ?hp hook_content"
    by (auto simp: write_text_def hook_content_utf8 split: sum.splits)
  have "\<not> prefix ?hp ?hd"
    by (simp add: hook_path_eq pjoin_def lit_def)
  with mkdir_parents_frame [OF 1] assms(2) have a: "lookup fs1 ?hp = None"
    by simp
  from open_w_frame(1) [OF o] a have b: "lookup fs2 ?hp = Some (File [] (438 AND NOT (umask env)))"
    by auto
  then have ne: "?hp \<noteq> []" by (auto simp: lookup_def split: if_splits)
  from b w ne have c: "lookup fs3 ?hp = Some (File hook_content (438 AND NOT (umask env)))"
    by (simp add: write_data_def lookup_update)
  have "write_post_receive_hook_states env rd fs = [fs, fs1, fs2, fs3, fs']"
    using 1 o w 3 by (simp add: write_post_receive_hook_states_def Let_def hp hook_content_utf8)
  with a b c show ?thesis by blast
qed

lemma hook_ready_after:
  assumes "write_post_receive_hook env rd fs = (None, fs')"
  shows "hook_absent_or_ready rd fs'" and "lookup fs' (hook_path rd) = Some (File hook_content 493)"
  using write_post_receive_hook_ok(1) [OF assms] executable_755
  by (simp_all add: hook_absent_or_ready_def)

lemma fs_before_hook_eq:
  "write_post_receive_hook env0 [lit ''srv'', lit ''repos'', lit ''acme'', lit ''widgets.git''] fs_before_hook
     = (None, snd (create_repo env0 (lit ''acme'') (lit ''widgets'') fs0))"
  unfolding fs_before_hook_def fs0_eq
  by (simp add: run_def step_def run_defs)

lemma fs_before_hook_no_hook:
  "lookup fs_before_hook (hook_path [lit ''srv'', lit ''repos'', lit ''acme'', lit ''widgets.git'']) = None"
  unfolding fs_before_hook_def fs0_eq hook_path_eq
  by (simp add: run_def step_def run_defs)

text \<open>
  Claim C9 as stated fails: the hook is written first and made executable afterwards.
  When \<^verbatim>\<open>create_repo\<close> installs the hook of \<open>("acme", "widgets")\<close>, the third and the fourth
  of the five states that another process can see hold a hook file that is not
  executable, empty in the third and complete in the fourth.
\<close>

theorem hook_half_installed_counterexample:
  "length (write_post_receive_hook_states env0
       [lit ''srv'', lit ''repos'', lit ''acme'', lit ''widgets.git''] fs_before_hook) = 5
   \<and> lookup (write_post_receive_hook_states env0
       [lit ''srv'', lit ''repos'', lit ''acme'', lit ''widgets.git''] fs_before_hook ! 2)
       (hook_path [lit ''srv'', lit ''repos'', lit ''acme'', lit ''widgets.git'']) = Some (File [] 420)
   \<and> lookup (write_post_receive_hook_states env0
       [lit ''srv'', lit ''repos'', lit ''acme'', lit ''widgets.git''] fs_before_hook ! 3)
       (hook_path [lit ''srv'', lit ''repos'', lit ''acme'', lit ''widgets.git''])
         = Some (File hook_content 420)
   \<and> \<not> executable 420
   \<and> \<not> hook_absent_or_ready [lit ''srv'', lit ''repos'', lit ''acme'', lit ''widgets.git'']
       (write_post_receive_hook_states env0
         [lit ''srv'', lit ''repos'', lit ''acme'', lit ''widgets.git''] fs_before_hook ! 2)
   \<and> \<not> hook_absent_or_ready [lit ''srv'', lit ''repos'', lit ''acme'', lit ''widgets.git'']
       (write_post_receive_hook_states env0
         [lit ''srv'', lit ''repos'', lit ''acme'', lit ''widgets.git''] fs_before_hook ! 3)"
proof -
  let ?rd = "[lit ''srv'', lit ''repos'', lit ''acme'', lit ''widgets.git'']"
  have m: "438 AND NOT (umask env0) = 420"
    by (simp add: env0_def)
  have x: "\<not> executable 420"
    by (simp add: executable_def)
  from hook_states_fresh [OF fs_before_hook_eq fs_before_hook_no_hook]
  obtain fs1 fs2 fs3 where
    s: "write_post_receive_hook_states env0 ?rd fs_before_hook =
          [fs_before_hook, fs1, fs2, fs3, snd (create_repo env0 (lit ''acme'') (lit ''widgets'') fs0)]"
    and 2: "lookup fs2 (hook_path ?rd) = Some (File [] 420)"
    and 3: "lookup fs3 (hook_path ?rd) = Some (File hook_content 420)"
    unfolding m by blast
  from 2 3 x show ?thesis
    unfolding s by (simp add: hook_absent_or_ready_def)
qed

text \<open>
  Claim C9, amended. When the installation of the hook succeeds, the state it ends in
  holds the hook in full, with the mode \<open>0o755\<close>, which is executable. The installation
  is not one step: when no hook file was there before, it passes through a state in which
  the hook file is empty and a state in which it is complete, and in neither is it
  executable.
\<close>

theorem hook_installation_states:
  assumes "write_post_receive_hook env rd fs = (None, fs')"
  shows "hd (write_post_receive_hook_states env rd fs) = fs
       \<and> last (write_post_receive_hook_states env rd fs) = fs'
       \<and> lookup fs' (hook_path rd) = Some (File hook_content 493) \<and> executable 493
       \<and> hook_absent_or_ready rd fs'
       \<and> (lookup fs (hook_path rd) = None \<longrightarrow>
            (\<exists>fs1 fs2 fs3 m.
               write_post_receive_hook_states env rd fs = [fs, fs1, fs2, fs3, fs']
             \<and> lookup fs1 (hook_path rd) = None
             \<and> lookup fs2 (hook_path rd) = Some (File [] m)
             \<and> lookup fs3 (hook_path rd) = Some (File hook_content m)
             \<and> \<not> executable m))"
proof -
  have "lookup fs (hook_path rd) = None \<longrightarrow>
            (\<exists>fs1 fs2 fs3 m.
               write_post_receive_hook_states env rd fs = [fs, fs1, fs2, fs3, fs']
             \<and> lookup fs1 (hook_path rd) = None
             \<and> lookup fs2 (hook_path rd) = Some (File [] m)
             \<and> lookup fs3 (hook_path rd) = Some (File hook_content m)
             \<and> \<not> executable m)"
    using hook_states_fresh [OF assms] not_executable_new_file by blast
  with hook_states_ends [of env rd fs] hook_ready_after [OF assms] executable_755 assms
  show ?thesis by simp
qed

theorem hook_installation_states_witness:
  "write_post_receive_hook env0 [lit ''srv'', lit ''repos'', lit ''acme'', lit ''widgets.git''] fs_before_hook
     = (None, snd (create_repo env0 (lit ''acme'') (lit ''widgets'') fs0))
   \<and> lookup fs_before_hook (hook_path [lit ''srv'', lit ''repos'', lit ''acme'', lit ''widgets.git'']) = None
   \<and> last (write_post_receive_hook_states env0
        [lit ''srv'', lit ''repos'', lit ''acme'', lit ''widgets.git''] fs_before_hook)
       = snd (create_repo env0 (lit ''acme'') (lit ''widgets'') fs0)
   \<and> hook_absent_or_ready [lit ''srv'', lit ''repos'', lit ''acme'', lit ''widgets.git'']
        (snd (create_repo env0 (lit ''acme'') (lit ''widgets'') fs0))
   \<and> length (write_post_receive_hook_states env0
        [lit ''srv'', lit ''repos'', lit ''acme'', lit ''widgets.git''] fs_before_hook) = 5"
proof -
  from hook_installation_states [OF fs_before_hook_eq] fs_before_hook_no_hook
  have "last (write_post_receive_hook_states env0
        [lit ''srv'', lit ''repos'', lit ''acme'', lit ''widgets.git''] fs_before_hook)
       = snd (create_repo env0 (lit ''acme'') (lit ''widgets'') fs0)"
    and "hook_absent_or_ready [lit ''srv'', lit ''repos'', lit ''acme'', lit ''widgets.git'']
        (snd (create_repo env0 (lit ''acme'') (lit ''widgets'') fs0))"
    and "length (write_post_receive_hook_states env0
        [lit ''srv'', lit ''repos'', lit ''acme'', lit ''widgets.git''] fs_before_hook) = 5"
    by auto
  with fs_before_hook_eq fs_before_hook_no_hook show ?thesis by simp
qed

section \<open>Two requests for one identifier\<close>

text \<open>The four steps of a request, taken without interruption, are \<^verbatim>\<open>create_repo\<close>.\<close>

lemma create_steps:
  "(case create_step env bo bn Start fs of (p1, f1) \<Rightarrow>
    case create_step env bo bn p1 f1 of (p2, f2) \<Rightarrow>
    case create_step env bo bn p2 f2 of (p3, f3) \<Rightarrow>
      create_step env bo bn p3 f3)
   = (Done (fst (create_repo env bo bn fs)), snd (create_repo env bo bn fs))"
  by (simp add: create_repo_def Let_def split: sum.splits prod.splits bool.splits option.splits)

lemma four_steps_First:
  "fold (step env bo bn) [First, First, First, First] \<lparr>pc_A = Start, pc_B = q, disk = fs\<rparr>
     = \<lparr>pc_A = Done (fst (create_repo env bo bn fs)), pc_B = q, disk = snd (create_repo env bo bn fs)\<rparr>"
  using create_steps [of env bo bn fs]
  by (simp add: step_def split: prod.splits)

lemma four_steps_Second:
  "fold (step env bo bn) [Second, Second, Second, Second] \<lparr>pc_A = q, pc_B = Start, disk = fs\<rparr>
     = \<lparr>pc_A = q, pc_B = Done (fst (create_repo env bo bn fs)), disk = snd (create_repo env bo bn fs)\<rparr>"
  using create_steps [of env bo bn fs]
  by (simp add: step_def split: prod.splits)

lemma run_one_after_the_other:
  "run env bo bn [First, First, First, First, Second, Second, Second, Second] fs =
     \<lparr>pc_A = Done (fst (create_repo env bo bn fs)),
      pc_B = Done (fst (create_repo env bo bn (snd (create_repo env bo bn fs)))),
      disk = snd (create_repo env bo bn (snd (create_repo env bo bn fs)))\<rparr>"
proof -
  have "run env bo bn ([First, First, First, First] @ [Second, Second, Second, Second]) fs =
      fold (step env bo bn) [Second, Second, Second, Second]
        (fold (step env bo bn) [First, First, First, First] \<lparr>pc_A = Start, pc_B = Start, disk = fs\<rparr>)"
    unfolding run_def fold_append by simp
  then show ?thesis
    by (simp only: four_steps_First four_steps_Second append.simps)
qed

text \<open>
  Claim C10 as stated fails: the existence test and the creation are separate steps. When
  the second request makes its test after the first request has made its own and before
  the first has created anything, both requests end with a descriptor.
\<close>

theorem overlapping_requests_counterexample:
  "pc_A (run env0 (lit ''acme'') (lit ''widgets'')
       [First, Second, First, First, First, Second, Second, Second] fs0) =
     Done (Inr \<lparr>info_org = lit ''acme'', info_name = lit ''widgets'',
                info_path = lit ''/srv/repos/acme/widgets.git'',
                info_clone_url_file = lit ''file:///srv/repos/acme/widgets.git''\<rparr>)
   \<and> pc_B (run env0 (lit ''acme'') (lit ''widgets'')
       [First, Second, First, First, First, Second, Second, Second] fs0) =
     Done (Inr \<lparr>info_org = lit ''acme'', info_name = lit ''widgets'',
                info_path = lit ''/srv/repos/acme/widgets.git'',
                info_clone_url_file = lit ''file:///srv/repos/acme/widgets.git''\<rparr>)"
  unfolding fs0_eq by (simp add: run_def step_def run_defs)

text \<open>
  Claim C10, amended. For every identifier, two provisioning calls with that identifier
  of which one ends before the other begins result, when the first creates the
  repository, in that one creation and in \<open>AlreadyExists\<close> for the second (the engine
  keeping its contract): run one after the other, the two requests are two calls of
  \<^verbatim>\<open>create_repo\<close>. The test and the creation are not one critical section.
\<close>

theorem requests_one_after_the_other:
  assumes "engine_ok (git_init_bare env)"
    and "pc_A (run env bo bn [First, First, First, First, Second, Second, Second, Second] fs) = Done (Inr d)"
  shows "pc_B (run env bo bn [First, First, First, First, Second, Second, Second, Second] fs)
           = Done (Inl AlreadyExists)
       \<and> create_repo env bo bn fs =
           (Inr d, disk (run env bo bn [First, First, First, First, Second, Second, Second, Second] fs))"
proof -
  from assms(2) have "fst (create_repo env bo bn fs) = Inr d"
    by (simp add: run_one_after_the_other)
  then have r: "create_repo env bo bn fs = (Inr d, snd (create_repo env bo bn fs))"
    by (simp add: prod_eq_iff)
  from create_repo_again [OF assms(1) r] r show ?thesis
    by (simp add: run_one_after_the_other)
qed

theorem requests_one_after_the_other_witness:
  "engine_ok (git_init_bare env0)
   \<and> pc_A (run env0 (lit ''acme'') (lit ''widgets'')
        [First, First, First, First, Second, Second, Second, Second] fs0) =
       Done (Inr \<lparr>info_org = lit ''acme'', info_name = lit ''widgets'',
                  info_path = lit ''/srv/repos/acme/widgets.git'',
                  info_clone_url_file = lit ''file:///srv/repos/acme/widgets.git''\<rparr>)
   \<and> pc_B (run env0 (lit ''acme'') (lit ''widgets'')
        [First, First, First, First, Second, Second, Second, Second] fs0) = Done (Inl AlreadyExists)"
proof -
  have e: "engine_ok (git_init_bare env0)"
    by (simp add: env0_def engine_ok_git_model)
  have a: "pc_A (run env0 (lit ''acme'') (lit ''widgets'')
        [First, First, First, First, Second, Second, Second, Second] fs0) =
       Done (Inr \<lparr>info_org = lit ''acme'', info_name = lit ''widgets'',
                  info_path = lit ''/srv/repos/acme/widgets.git'',
                  info_clone_url_file = lit ''file:///srv/repos/acme/widgets.git''\<rparr>)"
    using create_acme_widgets by (simp add: run_one_after_the_other)
  from requests_one_after_the_other [OF e a] e a show ?thesis
    by simp
qed

end
